theory Spec2Isabelle
  imports Complex_Main "HOL-Library.Multiset"
begin

section \<open>JavaScript values used by the analyser\<close>

text \<open>
  A string is a list of code units below 256: \<open>CHR n\<close> is the code unit \<open>n\<close>, so the
  characters are those of ASCII and of the Latin-1 supplement. A number that can be the
  result of a parse or of a division is a \<open>jsnum\<close>, which keeps the three non-finite
  values of JavaScript arithmetic apart from the finite ones; \<open>-0\<close> is not told apart
  from \<open>0\<close>, which no operation below does either. The analysis keeps the counts of
  its records, their sums and the risk scores as \<open>int\<close> and the frequency as an exact
  quotient: the rounding of sums of counts beyond 53 bits is not part of the model.
\<close>

datatype 'a jsnum = Fin 'a | NaN | PosInf | NegInf

text \<open>\<open>a >= b\<close> and \<open>a < b\<close> on numbers: every comparison with \<open>NaN\<close> is false.\<close>

fun geNum :: "rat jsnum \<Rightarrow> rat jsnum \<Rightarrow> bool" where
  "geNum NaN _ = False"
| "geNum _ NaN = False"
| "geNum PosInf _ = True"
| "geNum _ NegInf = True"
| "geNum NegInf _ = False"
| "geNum _ PosInf = False"
| "geNum (Fin a) (Fin b) = (b \<le> a)"

fun ltNum :: "rat jsnum \<Rightarrow> rat jsnum \<Rightarrow> bool" where
  "ltNum NaN _ = False"
| "ltNum _ NaN = False"
| "ltNum PosInf _ = False"
| "ltNum _ NegInf = False"
| "ltNum NegInf _ = True"
| "ltNum _ PosInf = True"
| "ltNum (Fin a) (Fin b) = (a < b)"

text \<open>\<open>a / b\<close> on two integers held as numbers.\<close>

definition divNum :: "int \<Rightarrow> int \<Rightarrow> rat jsnum" where
  "divNum a b =
     (if b = 0 then (if a = 0 then NaN else if 0 < a then PosInf else NegInf)
      else Fin (of_int a / of_int b))"

text \<open>\<open>Math.floor(a / b)\<close> for an integer \<open>a\<close> (or \<open>NaN\<close>, given as \<open>None\<close>) and an integer \<open>b\<close>.\<close>

definition floorDiv :: "int option \<Rightarrow> int \<Rightarrow> int jsnum" where
  "floorDiv a b =
     (case a of
        None \<Rightarrow> NaN
      | Some m \<Rightarrow>
          if b = 0 then (if m = 0 then NaN else if 0 < m then PosInf else NegInf)
          else Fin (m div b))"

text \<open>
  The double nearest to an integer, ties to the even significand: an integer below
  \<open>2^53\<close> in magnitude is a double; a larger one is cut to 53 significant bits, and
  what reaches \<open>2^1024\<close> is \<open>Infinity\<close>. \<open>scaleOf a\<close> is the power of two by which a
  non-negative \<open>a\<close> exceeds 53 bits.
\<close>

function scaleOf :: "int \<Rightarrow> int" where
  "scaleOf a = (if a < 2 ^ 53 then 1 else 2 * scaleOf (a div 2))"
  by pat_completeness auto
termination
  by (relation "measure nat") auto

declare scaleOf.simps [simp del]

definition roundMagnitude :: "int \<Rightarrow> int" where
  "roundMagnitude a =
     (let p = scaleOf a; q = a div p; r = a mod p
      in if p < 2 * r \<or> (2 * r = p \<and> odd q) then (q + 1) * p else q * p)"

definition roundDouble :: "int \<Rightarrow> int jsnum" where
  "roundDouble n =
     (let v = roundMagnitude \<bar>n\<bar>
      in if 2 ^ 1024 \<le> v then (if n < 0 then NegInf else PosInf)
         else Fin (if n < 0 then - v else v))"

subsection \<open>Strings\<close>

definition digitChar :: "int \<Rightarrow> char" where
  "digitChar d = ''0123456789'' ! nat (d mod 10)"

text \<open>The decimal digits of a non-negative integer.\<close>

function showDigits :: "int \<Rightarrow> string" where
  "showDigits n = (if n < 10 then [digitChar n] else showDigits (n div 10) @ [digitChar n])"
  by pat_completeness auto
termination
  by (relation "measure nat") auto

declare showDigits.simps [simp del]

definition showNat :: "nat \<Rightarrow> string" where
  "showNat n = showDigits (int n)"

definition showInt :: "int \<Rightarrow> string" where
  "showInt i = (if i < 0 then CHR ''-'' # showDigits (- i) else showDigits i)"

text \<open>The text a template literal gives for a window index.\<close>

fun showNum :: "int jsnum \<Rightarrow> string" where
  "showNum (Fin i) = showInt i"
| "showNum NaN = ''NaN''"
| "showNum PosInf = ''Infinity''"
| "showNum NegInf = ''-Infinity''"

text \<open>
  The white space and line terminators of the language among the code units below 256:
  tab, line feed, vertical tab, form feed, carriage return, space and no-break space.
\<close>

definition isWhiteSpace :: "char \<Rightarrow> bool" where
  "isWhiteSpace c =
     (c \<in> set [CHR '' '', CHR 0x09, CHR 0x0A, CHR 0x0B, CHR 0x0C, CHR 0x0D, CHR 0xA0])"

text \<open>\<open>String.prototype.trim\<close>.\<close>

definition trim :: "string \<Rightarrow> string" where
  "trim s = rev (dropWhile isWhiteSpace (rev (dropWhile isWhiteSpace s)))"

text \<open>
  \<open>toLowerCase\<close> and \<open>toUpperCase\<close>. The letters with two cases below 256 are \<open>A\<close> to
  \<open>Z\<close> and the thirty letters from \<open>0xC0\<close> to \<open>0xDE\<close> without the multiplication sign
  \<open>0xD7\<close>; their small forms lie 32 higher. The capital of the sharp s \<open>0xDF\<close> is the
  text \<open>SS\<close>. The capitals of the micro sign \<open>0xB5\<close> and of \<open>0xFF\<close> lie above 255 and
  are no ASCII letters: the two are left as they are, which a comparison with an ASCII
  text, the only use of \<open>toUpperCase\<close> in the program, cannot tell apart.
\<close>

definition upperLetters :: string where
  "upperLetters = ''ABCDEFGHIJKLMNOPQRSTUVWXYZ'' @
       [CHR 0xC0, CHR 0xC1, CHR 0xC2, CHR 0xC3, CHR 0xC4, CHR 0xC5, CHR 0xC6, CHR 0xC7,
        CHR 0xC8, CHR 0xC9, CHR 0xCA, CHR 0xCB, CHR 0xCC, CHR 0xCD, CHR 0xCE, CHR 0xCF,
        CHR 0xD0, CHR 0xD1, CHR 0xD2, CHR 0xD3, CHR 0xD4, CHR 0xD5, CHR 0xD6, CHR 0xD8,
        CHR 0xD9, CHR 0xDA, CHR 0xDB, CHR 0xDC, CHR 0xDD, CHR 0xDE]"

definition lowerLetters :: string where
  "lowerLetters = ''abcdefghijklmnopqrstuvwxyz'' @
       [CHR 0xE0, CHR 0xE1, CHR 0xE2, CHR 0xE3, CHR 0xE4, CHR 0xE5, CHR 0xE6, CHR 0xE7,
        CHR 0xE8, CHR 0xE9, CHR 0xEA, CHR 0xEB, CHR 0xEC, CHR 0xED, CHR 0xEE, CHR 0xEF,
        CHR 0xF0, CHR 0xF1, CHR 0xF2, CHR 0xF3, CHR 0xF4, CHR 0xF5, CHR 0xF6, CHR 0xF8,
        CHR 0xF9, CHR 0xFA, CHR 0xFB, CHR 0xFC, CHR 0xFD, CHR 0xFE]"

definition toLowerChar :: "char \<Rightarrow> char" where
  "toLowerChar c = (case map_of (zip upperLetters lowerLetters) c of Some d \<Rightarrow> d | None \<Rightarrow> c)"

definition toUpperChar :: "char \<Rightarrow> string" where
  "toUpperChar c =
     (if c = CHR 0xDF then ''SS''
      else case map_of (zip lowerLetters upperLetters) c of Some d \<Rightarrow> [d] | None \<Rightarrow> [c])"

definition toLowerCase :: "string \<Rightarrow> string" where
  "toLowerCase s = map toLowerChar s"

definition toUpperCase :: "string \<Rightarrow> string" where
  "toUpperCase s = concat (map toUpperChar s)"

text \<open>\<open>s.startsWith(pat)\<close> and \<open>s.includes(pat)\<close> (\<open>includes\<close> is reserved, hence the suffix).\<close>

definition startsWith :: "string \<Rightarrow> string \<Rightarrow> bool" where
  "startsWith s pat = (take (length pat) s = pat)"

fun includesStr :: "string \<Rightarrow> string \<Rightarrow> bool" where
  "includesStr [] pat = (pat = [])"
| "includesStr (c # s) pat = (startsWith (c # s) pat \<or> includesStr s pat)"

subsection \<open>\<open>parseInt\<close> with no radix argument\<close>

text \<open>
  The argument is first turned into a string (\<open>undefined\<close>, a missing column, reads
  \<open>"undefined"\<close>); leading white space is skipped; a sign is read; \<open>0x\<close> or \<open>0X\<close>
  switches to base 16; the longest run of digits of the base is the value, and an empty
  run gives \<open>NaN\<close>. Whatever follows the digits is ignored. The result is a double: the
  one nearest to the signed value of the run, as the engine of Node computes it (the
  language lets an engine read decimal digits after the twentieth as zeros).
\<close>

definition digitValue :: "char \<Rightarrow> int option" where
  "digitValue c =
     map_of (zip ''0123456789abcdef'' [0 .. 15] @ zip ''ABCDEF'' [10 .. 15]) c"

definition isRadixDigit :: "int \<Rightarrow> char \<Rightarrow> bool" where
  "isRadixDigit R c = (case digitValue c of None \<Rightarrow> False | Some v \<Rightarrow> v < R)"

definition digitsValue :: "int \<Rightarrow> string \<Rightarrow> int" where
  "digitsValue R Z =
     foldl (\<lambda>acc c. acc * R + (case digitValue c of None \<Rightarrow> 0 | Some v \<Rightarrow> v)) 0 Z"

definition parseInt :: "string option \<Rightarrow> int jsnum" where
  "parseInt v =
     (let inputString = (case v of None \<Rightarrow> ''undefined'' | Some s \<Rightarrow> s);
          S = dropWhile isWhiteSpace inputString;
          sign = (if startsWith S ''-'' then - 1 else (1::int));
          S1 = (if startsWith S ''+'' \<or> startsWith S ''-'' then drop 1 S else S);
          hex = (startsWith S1 ''0x'' \<or> startsWith S1 ''0X'');
          R = (if hex then 16 else 10);
          S2 = (if hex then drop 2 S1 else S1);
          Z = takeWhile (isRadixDigit R) S2
      in if Z = [] then NaN else roundDouble (sign * digitsValue R Z))"

section \<open>Configuration (\<open>config.js\<close>)\<close>

definition COL_TIMESTAMP :: string where "COL_TIMESTAMP = '' Timestamp''"
definition COL_SOURCE_IP :: string where "COL_SOURCE_IP = '' Source IP''"
definition COL_DEST_IP :: string where "COL_DEST_IP = '' Destination IP''"
definition COL_FWD_PACKETS :: string where "COL_FWD_PACKETS = '' Total Fwd Packets''"
definition COL_FLOW_DURATION :: string where "COL_FLOW_DURATION = '' Flow Duration''"
definition COL_TOTAL_LENGTH :: string where "COL_TOTAL_LENGTH = ''Total Length of Fwd Packets''"
definition COL_LABEL :: string where "COL_LABEL = '' Label''"

definition isDigitIn :: "string \<Rightarrow> char \<Rightarrow> bool" where
  "isDigitIn cls c = (c \<in> set cls)"

text \<open>The six regular expressions of \<open>SUSPICIOUS_IP_PATTERNS\<close>, each as its \<open>test\<close>.\<close>

fun re_172 :: "string \<Rightarrow> bool" where
  "re_172 (c1 # c2 # c3 # c4 # a # b # c # rest) =
     (c1 = CHR ''1'' \<and> c2 = CHR ''7'' \<and> c3 = CHR ''2'' \<and> c4 = CHR ''.'' \<and>
      ((a = CHR ''1'' \<and> isDigitIn ''6789'' b) \<or>
       (a = CHR ''2'' \<and> isDigitIn ''0123456789'' b) \<or>
       (a = CHR ''3'' \<and> isDigitIn ''01'' b)) \<and>
      c = CHR ''.'')"
| "re_172 _ = False"

record detection_config =
  HIGH_FREQUENCY_THRESHOLD :: rat
  MEDIUM_FREQUENCY_THRESHOLD :: rat
  ANALYSIS_WINDOW :: int
  SUSPICIOUS_USER_AGENTS :: "string list"
  SUSPICIOUS_IP_PATTERNS :: "(string \<Rightarrow> bool) list"
  SUSPICIOUS_RESPONSE_CODES :: "string list"
  SUSPICIOUS_METHODS :: "string list"
  KNOWN_DDOS_LABELS :: "string list"

definition DETECTION_CONFIG :: detection_config where
  "DETECTION_CONFIG = \<lparr>
     HIGH_FREQUENCY_THRESHOLD = 100,
     MEDIUM_FREQUENCY_THRESHOLD = 50,
     ANALYSIS_WINDOW = 5,
     SUSPICIOUS_USER_AGENTS =
       [''bot'', ''crawler'', ''spider'', ''scraper'', ''curl'', ''wget'', ''python'', ''java'',
        ''go-http-client'', ''okhttp'', ''requests'', ''urllib'', ''scrapy''],
     SUSPICIOUS_IP_PATTERNS =
       [\<lambda>ip. startsWith ip ''10.'', re_172, \<lambda>ip. startsWith ip ''192.168.'',
        \<lambda>ip. startsWith ip ''127.'', \<lambda>ip. startsWith ip ''0.0.0.0'',
        \<lambda>ip. startsWith ip ''255.255.255.255''],
     SUSPICIOUS_RESPONSE_CODES = [''429'', ''503'', ''502'', ''504''],
     SUSPICIOUS_METHODS = [''HEAD'', ''OPTIONS'', ''TRACE'', ''CONNECT''],
     KNOWN_DDOS_LABELS =
       [''DrDoS_DNS'', ''DrDoS_LDAP'', ''DrDoS_MSSQL'', ''DrDoS_NetBIOS'', ''DrDoS_NTP'',
        ''DrDoS_SNMP'', ''DrDoS_SSDP'', ''DrDoS_UDP'', ''DrDoS_WebDDoS'', ''Syn'', ''TFTP'',
        ''UDP'', ''UDP-lag'', ''WebDDoS'', ''LDAP'', ''MSSQL'', ''NetBIOS'', ''NTP'', ''SNMP'',
        ''SSDP'']
   \<rparr>"

section \<open>Record normalizer\<close>

text \<open>
  The record of one row. The count that the normalizer stores is the number that
  \<open>parseInt\<close> returns, so its records are of type \<open>csv_record\<close>; the analysis is stated
  for records with integer counts, type \<open>log_record\<close>.
\<close>

record 'n log_entry =
  timestamp :: string
  sourceIP :: string
  destinationIP :: string
  requestCount :: 'n
  duration :: "rat jsnum"
  bytes :: "rat jsnum"
  label :: string
  userAgent :: string
  responseCode :: string
  "method" :: string
  path :: string

type_synonym csv_record = "int jsnum log_entry"

type_synonym log_record = "int log_entry"

text \<open>A parsed CSV row: column name to cell text; a column the file lacks is \<open>None\<close>.\<close>

type_synonym csv_row = "string \<Rightarrow> string option"

text \<open>\<open>cell?.trim() || dflt\<close>: the default replaces a missing cell and an empty trimmed one.\<close>

definition trimOr :: "string option \<Rightarrow> string \<Rightarrow> string" where
  "trimOr cell dflt =
     (case cell of None \<Rightarrow> dflt | Some s \<Rightarrow> if trim s = [] then dflt else trim s)"

text \<open>\<open>parseInt(cell) || 1\<close>: the default replaces \<open>NaN\<close> and \<open>0\<close>, the two falsy numbers.\<close>

definition parseIntOr1 :: "string option \<Rightarrow> int jsnum" where
  "parseIntOr1 cell =
     (if parseInt cell = NaN \<or> parseInt cell = Fin 0 then Fin 1 else parseInt cell)"

text \<open>
  \<open>parseFloat(cell) || 0\<close>. \<open>parseFloat\<close> is the host's; it is a parameter here, and
  nothing below reads the two fields it fills.
\<close>

definition parseFloatOr0 :: "(string option \<Rightarrow> rat jsnum) \<Rightarrow> string option \<Rightarrow> rat jsnum" where
  "parseFloatOr0 parseFloat cell =
     (if parseFloat cell = NaN \<or> parseFloat cell = Fin 0 then Fin 0 else parseFloat cell)"

definition mapRow :: "(string option \<Rightarrow> rat jsnum) \<Rightarrow> csv_row \<Rightarrow> csv_record" where
  "mapRow parseFloat data = \<lparr>
     timestamp = trimOr (data COL_TIMESTAMP) ''N/A'',
     sourceIP = trimOr (data COL_SOURCE_IP) ''UNKNOWN'',
     destinationIP = trimOr (data COL_DEST_IP) ''UNKNOWN'',
     requestCount = parseIntOr1 (data COL_FWD_PACKETS),
     duration = parseFloatOr0 parseFloat (data COL_FLOW_DURATION),
     bytes = parseFloatOr0 parseFloat (data COL_TOTAL_LENGTH),
     label = trimOr (data COL_LABEL) ''N/A'',
     userAgent = ''N/A'',
     responseCode = ''N/A'',
     method = ''N/A'',
     path = ''N/A''
   \<rparr>"

definition missingRequired :: "'n log_entry \<Rightarrow> bool" where
  "missingRequired e =
     (timestamp e = ''N/A'' \<or> sourceIP e = ''UNKNOWN'' \<or> destinationIP e = ''UNKNOWN'')"

definition skipMessage :: "nat \<Rightarrow> string" where
  "skipMessage rowNumber =
     ''Skipping malformed row '' @ showNat rowNumber @ '' (missing required fields)''"

datatype log_level = WARN | INFO

type_synonym log_line = "log_level \<times> string"

text \<open>
  \<open>StreamingCSVProcessor.normalizeLogEntry\<close>: \<open>Inl\<close> is the warning that is logged when
  the method returns \<open>null\<close>.
\<close>

definition normalizeLogEntry ::
  "(string option \<Rightarrow> rat jsnum) \<Rightarrow> csv_row \<Rightarrow> nat \<Rightarrow> log_line + csv_record" where
  "normalizeLogEntry parseFloat data rowNumber =
     (let normalized = mapRow parseFloat data
      in if missingRequired normalized then Inl (WARN, skipMessage rowNumber)
         else Inr normalized)"

text \<open>
  \<open>parseCSVLogs\<close>: the \<open>data\<close> handler runs once per row the CSV reader delivers, then
  the \<open>end\<close> handler resolves the promise with the rows kept.
\<close>

record parse_state =
  parsedResults :: "csv_record list"
  rowNumber :: nat
  logged :: "log_line list"

definition parseCSVLogs_onData ::
  "(string option \<Rightarrow> rat jsnum) \<Rightarrow> parse_state \<Rightarrow> csv_row \<Rightarrow> parse_state" where
  "parseCSVLogs_onData parseFloat st data =
     (let normalizedLogEntry = mapRow parseFloat data;
          st1 = (if missingRequired normalizedLogEntry
                 then st\<lparr>logged := logged st @ [(WARN, skipMessage (rowNumber st))]\<rparr>
                 else st\<lparr>parsedResults := parsedResults st @ [normalizedLogEntry]\<rparr>)
      in st1\<lparr>rowNumber := rowNumber st1 + 1\<rparr>)"

definition parseCSVLogs_onEnd :: "string \<Rightarrow> parse_state \<Rightarrow> csv_record list \<times> log_line list" where
  "parseCSVLogs_onEnd filePath st =
     (parsedResults st,
      logged st @ [(INFO, ''Parsed '' @ showNat (length (parsedResults st)) @
                          '' valid log entries from '' @ filePath)])"

definition parseCSVLogs ::
  "(string option \<Rightarrow> rat jsnum) \<Rightarrow> string \<Rightarrow> csv_row list \<Rightarrow> csv_record list \<times> log_line list" where
  "parseCSVLogs parseFloat filePath rows =
     parseCSVLogs_onEnd filePath
       (foldl (parseCSVLogs_onData parseFloat)
          \<lparr>parsedResults = [], rowNumber = 1, logged = []\<rparr> rows)"

section \<open>Window grouper\<close>

text \<open>
  A \<open>Set\<close> of strings is the list of its members in insertion order, without repeats;
  an object used as a dictionary is an association list, one pair per key, in the order
  in which the host lists the keys: the array indices first, in ascending order, then
  the other keys in insertion order. (A key of the map of windows ends in \<open>_\<close> and the
  text of a number, so it is no array index and no name of a member that objects inherit.)
\<close>

definition setAdd :: "string list \<Rightarrow> string \<Rightarrow> string list" where
  "setAdd s x = (if x \<in> set s then s else s @ [x])"

text \<open>
  An array index is the decimal text, without leading zeros, of an integer from 0 to
  \<open>2^32 - 2\<close>.
\<close>

definition isArrayIndex :: "string \<Rightarrow> bool" where
  "isArrayIndex k =
     (k \<noteq> [] \<and> list_all (isRadixDigit 10) k \<and> showInt (digitsValue 10 k) = k \<and>
      digitsValue 10 k < 2 ^ 32 - 1)"

text \<open>
  The value of a tally is a count, or a text: a tally object is created as \<open>{}\<close>, so a
  key that it does not hold itself reads as the member of that name that every object
  inherits, which is a function, and a function plus a number is the text of the function
  followed by the digits of the number.
\<close>

datatype tally_value = Count int | Text string

definition objectPrototypeMembers :: "string list" where
  "objectPrototypeMembers =
     [''constructor'', ''__defineGetter__'', ''__defineSetter__'', ''hasOwnProperty'',
      ''__lookupGetter__'', ''__lookupSetter__'', ''isPrototypeOf'', ''propertyIsEnumerable'',
      ''toString'', ''valueOf'', ''toLocaleString'']"

definition functionText :: "string \<Rightarrow> string" where
  "functionText k =
     ''function '' @ (if k = ''constructor'' then ''Object'' else k) @ ''() { [native code] }''"

text \<open>\<open>(v || 0) + n\<close> for the value \<open>v\<close> that a tally holds.\<close>

fun addCount :: "tally_value \<Rightarrow> int \<Rightarrow> tally_value" where
  "addCount (Count c) n = Count (c + n)"
| "addCount (Text t) n = (if t = [] then Count n else Text (t @ showInt n))"

text \<open>A new key takes its place in the order of the keys.\<close>

fun insertKey ::
  "(string \<times> tally_value) list \<Rightarrow> string \<Rightarrow> tally_value \<Rightarrow> (string \<times> tally_value) list" where
  "insertKey [] k v = [(k, v)]"
| "insertKey ((k', v') # obj) k v =
     (if isArrayIndex k \<and> (\<not> isArrayIndex k' \<or> digitsValue 10 k < digitsValue 10 k')
      then (k, v) # (k', v') # obj
      else (k', v') # insertKey obj k v)"

text \<open>
  \<open>obj[k] = (obj[k] || 0) + n\<close>. The key \<open>__proto__\<close> reads as the prototype and its
  assignment of a text changes nothing.
\<close>

definition tally ::
  "(string \<times> tally_value) list \<Rightarrow> string \<Rightarrow> int \<Rightarrow> (string \<times> tally_value) list" where
  "tally obj k n =
     (if k = ''__proto__'' then obj
      else case map_of obj k of
        None \<Rightarrow>
          insertKey obj k
            (if k \<in> set objectPrototypeMembers then Text (functionText k @ showInt n)
             else Count n)
      | Some v \<Rightarrow> map (\<lambda>(k', v'). if k' = k then (k', addCount v' n) else (k', v')) obj)"

definition isKnownDDoSAttack :: "string \<Rightarrow> bool" where
  "isKnownDDoSAttack lbl =
     (if lbl = [] then False
      else list_ex (\<lambda>knownLabel. toLowerCase lbl = toLowerCase knownLabel)
             (KNOWN_DDOS_LABELS DETECTION_CONFIG))"

record window_group =
  sourceIP :: string
  timeWindow :: "int jsnum"
  entries :: "log_record list"
  totalRequests :: int
  uniquePaths :: "string list"
  uniqueUserAgents :: "string list"
  responseCodes :: "(string \<times> tally_value) list"
  methods :: "(string \<times> tally_value) list"
  labels :: "string list"
  hasKnownDDoSAttack :: bool

definition newGroup :: "string \<Rightarrow> int jsnum \<Rightarrow> window_group" where
  "newGroup ip timeKey = \<lparr>
     sourceIP = ip,
     timeWindow = timeKey,
     entries = [],
     totalRequests = 0,
     uniquePaths = [],
     uniqueUserAgents = [],
     responseCodes = [],
     methods = [],
     labels = [],
     hasKnownDDoSAttack = False
   \<rparr>"

text \<open>What the body of the \<open>forEach\<close> does to the group stored under the record's key.\<close>

definition addToGroup :: "log_record \<Rightarrow> window_group \<Rightarrow> window_group" where
  "addToGroup logEntry g =
     (let g1 = g\<lparr>entries := entries g @ [logEntry],
                 totalRequests := totalRequests g + requestCount logEntry,
                 uniquePaths := setAdd (uniquePaths g) (path logEntry),
                 uniqueUserAgents := setAdd (uniqueUserAgents g) (userAgent logEntry)\<rparr>;
          g2 = (if label logEntry \<noteq> [] \<and> label logEntry \<noteq> ''N/A''
                then g1\<lparr>labels := setAdd (labels g1) (label logEntry),
                        hasKnownDDoSAttack :=
                          (if isKnownDDoSAttack (label logEntry) then True
                           else hasKnownDDoSAttack g1)\<rparr>
                else g1);
          g3 = (if responseCode logEntry \<noteq> [] \<and> responseCode logEntry \<noteq> ''N/A''
                then g2\<lparr>responseCodes :=
                          tally (responseCodes g2) (responseCode logEntry) (requestCount logEntry)\<rparr>
                else g2)
      in (if method logEntry \<noteq> [] \<and> method logEntry \<noteq> ''N/A''
          then g3\<lparr>methods := tally (methods g3) (method logEntry) (requestCount logEntry)\<rparr>
          else g3))"

type_synonym groups = "(string \<times> window_group) list"

fun modifyGroup :: "string \<Rightarrow> (window_group \<Rightarrow> window_group) \<Rightarrow> groups \<Rightarrow> groups" where
  "modifyGroup key f [] = []"
| "modifyGroup key f ((k, g) # rest) =
     (if k = key then (k, f g) # rest else (k, g) # modifyGroup key f rest)"

text \<open>
  \<open>new Date(s).getTime()\<close> is the host's date parser: a parameter \<open>dateGetTime\<close>,
  giving the milliseconds since the epoch, or \<open>None\<close> for an invalid date (\<open>NaN\<close>).
\<close>

definition timeKeyOf :: "(string \<Rightarrow> int option) \<Rightarrow> int \<Rightarrow> log_record \<Rightarrow> int jsnum" where
  "timeKeyOf dateGetTime windowMinutes logEntry =
     floorDiv (dateGetTime (timestamp logEntry)) (windowMinutes * 60 * 1000)"

definition keyOf :: "(string \<Rightarrow> int option) \<Rightarrow> int \<Rightarrow> log_record \<Rightarrow> string" where
  "keyOf dateGetTime windowMinutes logEntry =
     log_entry.sourceIP logEntry @ ''_'' @ showNum (timeKeyOf dateGetTime windowMinutes logEntry)"

definition groupByIPAndTime_step ::
  "(string \<Rightarrow> int option) \<Rightarrow> int \<Rightarrow> groups \<Rightarrow> log_record \<Rightarrow> groups" where
  "groupByIPAndTime_step dateGetTime windowMinutes ipTimeWindowGroups logEntry =
     (let timeKey = timeKeyOf dateGetTime windowMinutes logEntry;
          key = keyOf dateGetTime windowMinutes logEntry;
          created = (if map_of ipTimeWindowGroups key = None
                     then ipTimeWindowGroups @ [(key, newGroup (log_entry.sourceIP logEntry) timeKey)]
                     else ipTimeWindowGroups)
      in modifyGroup key (addToGroup logEntry) created)"

definition groupByIPAndTime ::
  "(string \<Rightarrow> int option) \<Rightarrow> log_record list \<Rightarrow> int \<Rightarrow> groups" where
  "groupByIPAndTime dateGetTime parsedLogEntries windowMinutes =
     foldl (groupByIPAndTime_step dateGetTime windowMinutes) [] parsedLogEntries"

section \<open>Rule engine and labelled-attack detector\<close>

definition isSuspiciousUserAgent :: "string \<Rightarrow> bool" where
  "isSuspiciousUserAgent ua =
     (if ua = [] then False
      else let lowerUA = toLowerCase ua
           in list_ex (\<lambda>pattern. includesStr lowerUA (toLowerCase pattern))
                (SUSPICIOUS_USER_AGENTS DETECTION_CONFIG))"

definition isSuspiciousIP :: "string \<Rightarrow> bool" where
  "isSuspiciousIP ip =
     (if ip = [] then False
      else list_ex (\<lambda>pattern. pattern ip) (SUSPICIOUS_IP_PATTERNS DETECTION_CONFIG))"

definition calculateRequestFrequency :: "int \<Rightarrow> int \<Rightarrow> rat jsnum" where
  "calculateRequestFrequency totalReq windowMinutes = divNum totalReq windowMinutes"

record analysis_stats =
  totalEntries :: nat
  uniqueIPs :: nat
  suspiciousIPs :: nat
  highFrequencyIPs :: nat
  suspiciousUserAgents :: nat
  knownDDoSAttacks :: nat
  labeledAttacks :: nat

text \<open>
  An indicator message is kept as the template it comes from together with the values
  the template interpolates, not as the rendered text.
\<close>

datatype indicator =
    HighRequestFrequency "rat jsnum"
  | MediumRequestFrequency "rat jsnum"
  | SuspiciousUserAgents "string list"
  | SuspiciousIPPattern string
  | SuspiciousResponseCodes "(string \<times> tally_value) list"
  | HighPathDiversity nat
  | SuspiciousMethods "(string \<times> tally_value) list"
  | DrDoSDNSDetected

record indicator_rule =
  check :: "window_group \<Rightarrow> rat jsnum \<Rightarrow> bool"
  message :: "window_group \<Rightarrow> rat jsnum \<Rightarrow> indicator"
  risk :: int
  statKey :: "string option"

definition indicatorRules :: "indicator_rule list" where
  "indicatorRules =
     [\<lparr>check = (\<lambda>g requestFrequency.
          geNum requestFrequency (Fin (HIGH_FREQUENCY_THRESHOLD DETECTION_CONFIG))),
       message = (\<lambda>g requestFrequency. HighRequestFrequency requestFrequency),
       risk = 3,
       statKey = Some ''highFrequencyIPs''\<rparr>,
      \<lparr>check = (\<lambda>g requestFrequency.
          geNum requestFrequency (Fin (MEDIUM_FREQUENCY_THRESHOLD DETECTION_CONFIG)) \<and>
          ltNum requestFrequency (Fin (HIGH_FREQUENCY_THRESHOLD DETECTION_CONFIG))),
       message = (\<lambda>g requestFrequency. MediumRequestFrequency requestFrequency),
       risk = 2,
       statKey = None\<rparr>,
      \<lparr>check = (\<lambda>g requestFrequency.
          0 < length (filter isSuspiciousUserAgent (uniqueUserAgents g))),
       message = (\<lambda>g requestFrequency.
          SuspiciousUserAgents (filter isSuspiciousUserAgent (uniqueUserAgents g))),
       risk = 2,
       statKey = Some ''suspiciousUserAgents''\<rparr>,
      \<lparr>check = (\<lambda>g requestFrequency. isSuspiciousIP (window_group.sourceIP g)),
       message = (\<lambda>g requestFrequency. SuspiciousIPPattern (window_group.sourceIP g)),
       risk = 1,
       statKey = Some ''suspiciousIPs''\<rparr>,
      \<lparr>check = (\<lambda>g requestFrequency.
          0 < length (filter (\<lambda>(code, count). code \<in> set (SUSPICIOUS_RESPONSE_CODES DETECTION_CONFIG))
                        (responseCodes g))),
       message = (\<lambda>g requestFrequency.
          SuspiciousResponseCodes
            (filter (\<lambda>(code, count). code \<in> set (SUSPICIOUS_RESPONSE_CODES DETECTION_CONFIG))
               (responseCodes g))),
       risk = 1,
       statKey = None\<rparr>,
      \<lparr>check = (\<lambda>g requestFrequency. 50 < length (uniquePaths g)),
       message = (\<lambda>g requestFrequency. HighPathDiversity (length (uniquePaths g))),
       risk = 1,
       statKey = None\<rparr>,
      \<lparr>check = (\<lambda>g requestFrequency.
          0 < length (filter (\<lambda>(m, count). m \<in> set (SUSPICIOUS_METHODS DETECTION_CONFIG))
                        (methods g))),
       message = (\<lambda>g requestFrequency.
          SuspiciousMethods
            (filter (\<lambda>(m, count). m \<in> set (SUSPICIOUS_METHODS DETECTION_CONFIG)) (methods g))),
       risk = 1,
       statKey = None\<rparr>]"

text \<open>\<open>analysisStats[key]++\<close> for the counters of \<open>analysisStats\<close>.\<close>

definition incrementStat :: "string \<Rightarrow> analysis_stats \<Rightarrow> analysis_stats" where
  "incrementStat key st =
     (if key = ''totalEntries'' then st\<lparr>totalEntries := totalEntries st + 1\<rparr>
      else if key = ''uniqueIPs'' then st\<lparr>uniqueIPs := uniqueIPs st + 1\<rparr>
      else if key = ''suspiciousIPs'' then st\<lparr>suspiciousIPs := suspiciousIPs st + 1\<rparr>
      else if key = ''highFrequencyIPs'' then st\<lparr>highFrequencyIPs := highFrequencyIPs st + 1\<rparr>
      else if key = ''suspiciousUserAgents''
        then st\<lparr>suspiciousUserAgents := suspiciousUserAgents st + 1\<rparr>
      else if key = ''knownDDoSAttacks'' then st\<lparr>knownDDoSAttacks := knownDDoSAttacks st + 1\<rparr>
      else if key = ''labeledAttacks'' then st\<lparr>labeledAttacks := labeledAttacks st + 1\<rparr>
      else st)"

text \<open>The local variables of one pass of the loop over the windows.\<close>

record scoring =
  suspiciousIndicators :: "indicator list"
  riskScore :: int
  groupHasDrDoSDNS :: bool
  groupHasLabeledAttack :: bool
  stats :: analysis_stats

text \<open>One pass of \<open>for (const rule of indicatorRules)\<close>.\<close>

definition applyRule :: "window_group \<Rightarrow> rat jsnum \<Rightarrow> scoring \<Rightarrow> indicator_rule \<Rightarrow> scoring" where
  "applyRule g requestFrequency sc rule =
     (if check rule g requestFrequency
      then sc\<lparr>suspiciousIndicators := suspiciousIndicators sc @ [message rule g requestFrequency],
              riskScore := riskScore sc + risk rule,
              stats := (case statKey rule of
                          None \<Rightarrow> stats sc
                        | Some key \<Rightarrow> incrementStat key (stats sc))\<rparr>
      else sc)"

text \<open>One pass of \<open>labels.forEach\<close>.\<close>

definition checkLabel :: "scoring \<Rightarrow> string \<Rightarrow> scoring" where
  "checkLabel sc lbl =
     (let sc1 = (if includesStr lbl ''DrDoS_DNS''
                 then sc\<lparr>riskScore := riskScore sc + 5,
                         suspiciousIndicators := suspiciousIndicators sc @ [DrDoSDNSDetected],
                         stats := (stats sc)\<lparr>knownDDoSAttacks := knownDDoSAttacks (stats sc) + 1\<rparr>,
                         groupHasDrDoSDNS := True\<rparr>
                 else sc)
      in if toUpperCase (trim lbl) \<noteq> ''BENIGN''
         then sc1\<lparr>stats := (stats sc1)\<lparr>labeledAttacks := labeledAttacks (stats sc1) + 1\<rparr>,
                  groupHasLabeledAttack := True\<rparr>
         else sc1)"

text \<open>The loop body up to, and without, the test of the risk score.\<close>

definition scoreGroup :: "analysis_stats \<Rightarrow> window_group \<Rightarrow> rat jsnum \<Rightarrow> scoring" where
  "scoreGroup analysisStats g requestFrequency =
     (let sc0 = \<lparr>suspiciousIndicators = [], riskScore = 0, groupHasDrDoSDNS = False,
                 groupHasLabeledAttack = False, stats = analysisStats\<rparr>;
          sc1 = foldl (applyRule g requestFrequency) sc0 indicatorRules
      in if 0 < length (labels g) then foldl checkLabel sc1 (labels g) else sc1)"

section \<open>Flagging and ranking\<close>

record flagged_entry =
  sourceIP :: string
  timestamp :: string
  requestCount :: int
  requestFrequency :: "rat jsnum"
  riskScore :: int
  suspiciousIndicators :: "indicator list"
  uniquePaths :: nat
  uniqueUserAgents :: nat
  responseCodes :: "(string \<times> tally_value) list"
  methods :: "(string \<times> tally_value) list"
  labels :: "string list"
  hasKnownDDoSAttack :: bool
  entries :: "log_record list"

definition makeFlaggedEntry :: "string \<Rightarrow> window_group \<Rightarrow> rat jsnum \<Rightarrow> scoring \<Rightarrow> flagged_entry" where
  "makeFlaggedEntry now g freq sc = \<lparr>
     sourceIP = window_group.sourceIP g,
     timestamp = now,
     requestCount = totalRequests g,
     requestFrequency = freq,
     riskScore = scoring.riskScore sc,
     suspiciousIndicators = scoring.suspiciousIndicators sc,
     uniquePaths = length (window_group.uniquePaths g),
     uniqueUserAgents = length (window_group.uniqueUserAgents g),
     responseCodes = window_group.responseCodes g,
     methods = window_group.methods g,
     labels = window_group.labels g,
     hasKnownDDoSAttack = (window_group.hasKnownDDoSAttack g \<or> groupHasDrDoSDNS sc),
     entries = take 5 (window_group.entries g)
   \<rparr>"

text \<open>
  The \<open>if (riskScore >= 2)\<close> that ends the body of the loop over the windows.
  \<open>new Date().toISOString()\<close> reads the wall clock: \<open>clock k\<close> is the text of the
  \<open>k\<close>-th reading of a run, and a run reads the clock once for each entry it flags.
\<close>

definition flagGroup ::
  "(nat \<Rightarrow> string) \<Rightarrow> flagged_entry list \<Rightarrow> window_group \<Rightarrow> rat jsnum \<Rightarrow> scoring
     \<Rightarrow> flagged_entry list \<times> analysis_stats" where
  "flagGroup clock flaggedEntries g freq sc =
     (if 2 \<le> scoring.riskScore sc
      then (flaggedEntries @ [makeFlaggedEntry (clock (length flaggedEntries)) g freq sc],
            stats sc)
      else (flaggedEntries, stats sc))"

text \<open>The body of \<open>Object.values(ipTimeWindowGroups).forEach\<close>.\<close>

definition analyzeGroup ::
  "(nat \<Rightarrow> string) \<Rightarrow> flagged_entry list \<times> analysis_stats \<Rightarrow> window_group
     \<Rightarrow> flagged_entry list \<times> analysis_stats" where
  "analyzeGroup clock acc ipTimeWindowGroup =
     (let freq = calculateRequestFrequency (totalRequests ipTimeWindowGroup)
                   (ANALYSIS_WINDOW DETECTION_CONFIG);
          sc = scoreGroup (snd acc) ipTimeWindowGroup freq
      in flagGroup clock (fst acc) ipTimeWindowGroup freq sc)"

text \<open>
  \<open>Array.prototype.sort\<close> with a comparator is a stable sort (ECMAScript 2019): an
  insertion sort that puts an element before the first one it does not have to follow.
\<close>

fun insertBy :: "('a \<Rightarrow> 'a \<Rightarrow> int) \<Rightarrow> 'a \<Rightarrow> 'a list \<Rightarrow> 'a list" where
  "insertBy cmp x [] = [x]"
| "insertBy cmp x (y # ys) = (if cmp x y \<le> 0 then x # y # ys else y # insertBy cmp x ys)"

fun sortBy :: "('a \<Rightarrow> 'a \<Rightarrow> int) \<Rightarrow> 'a list \<Rightarrow> 'a list" where
  "sortBy cmp [] = []"
| "sortBy cmp (x # xs) = insertBy cmp x (sortBy cmp xs)"

definition byRiskDescending :: "flagged_entry \<Rightarrow> flagged_entry \<Rightarrow> int" where
  "byRiskDescending a b = riskScore b - riskScore a"

record analysis_output =
  flaggedEntries :: "flagged_entry list"
  analysisStats :: analysis_stats
  analysisConfig :: detection_config

definition initialStats :: "log_record list \<Rightarrow> analysis_stats" where
  "initialStats parsedLogEntries = \<lparr>
     totalEntries = length parsedLogEntries,
     uniqueIPs = length (remdups (map log_entry.sourceIP parsedLogEntries)),
     suspiciousIPs = 0,
     highFrequencyIPs = 0,
     suspiciousUserAgents = 0,
     knownDDoSAttacks = 0,
     labeledAttacks = 0
   \<rparr>"

text \<open>\<open>Object.values\<close> of the map of groups: its groups, in the order their keys were created.\<close>

definition objectValues :: "groups \<Rightarrow> window_group list" where
  "objectValues ipTimeWindowGroups = map snd ipTimeWindowGroups"

text \<open>The flagged list and the statistics as they stand when the loop over the windows ends.\<close>

definition analyzeWindows ::
  "(string \<Rightarrow> int option) \<Rightarrow> (nat \<Rightarrow> string) \<Rightarrow> log_record list
     \<Rightarrow> flagged_entry list \<times> analysis_stats" where
  "analyzeWindows dateGetTime clock parsedLogEntries =
     foldl (analyzeGroup clock) ([], initialStats parsedLogEntries)
       (objectValues
          (groupByIPAndTime dateGetTime parsedLogEntries (ANALYSIS_WINDOW DETECTION_CONFIG)))"

definition analyzeLogsForDDoS ::
  "(string \<Rightarrow> int option) \<Rightarrow> (nat \<Rightarrow> string) \<Rightarrow> log_record list \<Rightarrow> analysis_output" where
  "analyzeLogsForDDoS dateGetTime clock parsedLogEntries =
     (let r = analyzeWindows dateGetTime clock parsedLogEntries
      in \<lparr>flaggedEntries = sortBy byRiskDescending (fst r),
          analysisStats = snd r,
          analysisConfig = DETECTION_CONFIG\<rparr>)"

section \<open>Streaming adapter (\<open>StreamingCSVProcessor\<close>)\<close>

record processor =
  filePath :: string
  batchSize :: int
  currentBatch :: "csv_record list"
  totalProcessed :: nat
  isProcessing :: bool


datatype event = Batch "csv_record list" | Complete nat

record stream_state =
  this :: processor
  rowNo :: nat
  emitted :: "event list"
  warned :: "log_line list"





section \<open>Vocabulary of the properties\<close>


text \<open>A group is its records, in order, added one by one to a fresh group.\<close>

definition builtFrom :: "window_group \<Rightarrow> log_record list \<Rightarrow> bool" where
  "builtFrom g es \<longleftrightarrow>
     (\<exists>ip tk. g = foldl (\<lambda>g e. addToGroup e g) (newGroup ip tk) es)"

text \<open>The frequency, the scoring and the risk score of a window taken by itself.\<close>

definition windowFrequency :: "window_group \<Rightarrow> rat jsnum" where
  "windowFrequency g =
     calculateRequestFrequency (totalRequests g) (ANALYSIS_WINDOW DETECTION_CONFIG)"

definition windowScore :: "window_group \<Rightarrow> scoring" where
  "windowScore g = scoreGroup (initialStats []) g (windowFrequency g)"

definition windowRisk :: "window_group \<Rightarrow> int" where
  "windowRisk g = scoring.riskScore (windowScore g)"

text \<open>The entry that the \<open>i\<close>-th flagged window of a run gives.\<close>

definition flaggedWindow :: "(nat \<Rightarrow> string) \<Rightarrow> nat \<times> window_group \<Rightarrow> flagged_entry" where
  "flaggedWindow clock ig =
     makeFlaggedEntry (clock (fst ig)) (snd ig) (windowFrequency (snd ig)) (windowScore (snd ig))"

definition eraseTimestamp :: "flagged_entry \<Rightarrow> flagged_entry" where
  "eraseTimestamp f = f\<lparr>flagged_entry.timestamp := []\<rparr>"

text \<open>Two scorings that differ in the statistics only.\<close>

definition sameScore :: "scoring \<Rightarrow> scoring \<Rightarrow> bool" where
  "sameScore a b \<longleftrightarrow>
     scoring.suspiciousIndicators a = scoring.suspiciousIndicators b \<and>
     scoring.riskScore a = scoring.riskScore b \<and>
     groupHasDrDoSDNS a = groupHasDrDoSDNS b \<and>
     groupHasLabeledAttack a = groupHasLabeledAttack b"

text \<open>Some pattern of a list occurs in a string.\<close>

definition includesAny :: "string \<Rightarrow> string list \<Rightarrow> bool" where
  "includesAny s pats = list_ex (includesStr s) pats"

text \<open>A required cell that is missing, empty once trimmed, or the sentinel of its field.\<close>

definition missingOrSentinel :: "string option \<Rightarrow> string \<Rightarrow> bool" where
  "missingOrSentinel cell sentinel =
     (case cell of None \<Rightarrow> True | Some s \<Rightarrow> trim s = [] \<or> trim s = sentinel)"

definition rejectedRow :: "csv_row \<Rightarrow> bool" where
  "rejectedRow data =
     (missingOrSentinel (data COL_TIMESTAMP) ''N/A'' \<or>
      missingOrSentinel (data COL_SOURCE_IP) ''UNKNOWN'' \<or>
      missingOrSentinel (data COL_DEST_IP) ''UNKNOWN'')"

text \<open>
  A text before which a run of decimal digits ends and which does not turn a leading
  \<open>0\<close> into the prefix of base 16: the empty text, or one that starts with neither a
  decimal digit nor \<open>x\<close>.
\<close>

definition endsNumber :: "string \<Rightarrow> bool" where
  "endsNumber rest =
     (case rest of [] \<Rightarrow> True | c # _ \<Rightarrow> \<not> isRadixDigit 10 c \<and> c \<noteq> CHR ''x'' \<and> c \<noteq> CHR ''X'')"

text \<open>The warnings of a run over rows numbered from \<open>n\<close>: one for each rejected row.\<close>

fun warningsFrom :: "nat \<Rightarrow> csv_row list \<Rightarrow> log_line list" where
  "warningsFrom n [] = []"
| "warningsFrom n (r # rs) =
     (if rejectedRow r then (WARN, skipMessage n) # warningsFrom (Suc n) rs
      else warningsFrom (Suc n) rs)"

text \<open>The records of the rows that are not rejected, in row order.\<close>

definition acceptedRecords :: "(string option \<Rightarrow> rat jsnum) \<Rightarrow> csv_row list \<Rightarrow> csv_record list" where
  "acceptedRecords parseFloat rows = map (mapRow parseFloat) (filter (\<lambda>r. \<not> rejectedRow r) rows)"

text \<open>A record whose four application-layer fields are the sentinel.\<close>

definition sentinelFields :: "'n log_entry \<Rightarrow> bool" where
  "sentinelFields e \<longleftrightarrow>
     userAgent e = ''N/A'' \<and> responseCode e = ''N/A'' \<and> method e = ''N/A'' \<and> path e = ''N/A''"

text \<open>
  The analyser adds the counts of its records up as integers. \<open>intCount\<close> is the record
  of the normalizer read as a record of the analyser; there is none when the count is an
  infinity. \<open>intCounts\<close> does so for a list, and is \<open>None\<close> as soon as one count is an
  infinity.
\<close>

definition intCount :: "csv_record \<Rightarrow> log_record option" where
  "intCount e =
     (case log_entry.requestCount e of
        Fin n \<Rightarrow> Some \<lparr>
          log_entry.timestamp = log_entry.timestamp e,
          log_entry.sourceIP = log_entry.sourceIP e,
          destinationIP = destinationIP e,
          log_entry.requestCount = n,
          duration = duration e,
          bytes = bytes e,
          label = label e,
          userAgent = userAgent e,
          responseCode = responseCode e,
          method = method e,
          path = path e
        \<rparr>
      | _ \<Rightarrow> None)"

definition intCounts :: "csv_record list \<Rightarrow> log_record list option" where
  "intCounts es = those (map intCount es)"

text \<open>The labels that the grouper records: the non-empty ones other than the sentinel.\<close>

definition recordedLabel :: "log_record \<Rightarrow> bool" where
  "recordedLabel e \<longleftrightarrow> label e \<noteq> [] \<and> label e \<noteq> ''N/A''"

text \<open>A window that has seen the sentinel only in the four application-layer fields.\<close>

definition sentinelOnly :: "window_group \<Rightarrow> bool" where
  "sentinelOnly g \<longleftrightarrow>
     window_group.uniquePaths g = [''N/A''] \<and> window_group.uniqueUserAgents g = [''N/A''] \<and>
     window_group.responseCodes g = [] \<and> window_group.methods g = []"


section \<open>Sample inputs\<close>

definition sampleEntry :: "string \<Rightarrow> string \<Rightarrow> int \<Rightarrow> string \<Rightarrow> log_record" where
  "sampleEntry ts ip n lbl = \<lparr>
     log_entry.timestamp = ts,
     log_entry.sourceIP = ip,
     destinationIP = ''198.51.100.7'',
     log_entry.requestCount = n,
     duration = Fin 0,
     bytes = Fin 0,
     label = lbl,
     userAgent = ''N/A'',
     responseCode = ''N/A'',
     method = ''N/A'',
     path = ''N/A''
   \<rparr>"

definition sampleDate :: "string \<Rightarrow> int option" where
  "sampleDate s =
     (if s = ''1970-01-01T00:00:00Z'' then Some 0
      else if s = ''1970-01-01T00:01:00Z'' then Some 60000
      else if s = ''1970-01-01T00:10:00Z'' then Some 600000
      else if s = ''2024-01-15T10:30:00Z'' then Some 1705314600000
      else None)"


definition sampleClock :: "nat \<Rightarrow> string" where
  "sampleClock k = ''2024-01-15T10:30:0'' @ showNat k @ ''.000Z''"

definition laterClock :: "nat \<Rightarrow> string" where
  "laterClock k = ''2024-01-15T11:45:0'' @ showNat k @ ''.000Z''"

definition boundaryLogs :: "log_record list" where
  "boundaryLogs =
     [sampleEntry ''1970-01-01T00:00:00Z'' ''10.0.0.50'' 1 ''BENIGN'',
      sampleEntry ''1970-01-01T00:00:00Z'' ''203.0.113.5'' 250 ''BENIGN'',
      sampleEntry ''1970-01-01T00:01:00Z'' ''198.51.100.2'' 500 ''BENIGN'',
      sampleEntry ''1970-01-01T00:10:00Z'' ''192.0.2.3'' 10 ''BENIGN'',
      sampleEntry ''1970-01-01T00:10:00Z'' ''203.0.113.5'' 300 ''BENIGN'']"

definition burstLogs :: "log_record list" where
  "burstLogs =
     [sampleEntry ''1970-01-01T00:00:00Z'' ''203.0.113.5'' 200 ''BENIGN'',
      sampleEntry ''1970-01-01T00:10:00Z'' ''203.0.113.5'' 7 ''BENIGN'',
      sampleEntry ''1970-01-01T00:01:00Z'' ''203.0.113.5'' 300 ''BENIGN'']"

definition sampleParseFloat :: "string option \<Rightarrow> rat jsnum" where
  "sampleParseFloat cell =
     (if cell = Some ''0.150'' then Fin (3 / 20)
      else if cell = Some ''1024'' then Fin 1024
      else NaN)"

definition sampleRow :: "string \<Rightarrow> string \<Rightarrow> string \<Rightarrow> string \<Rightarrow> csv_row" where
  "sampleRow ts src dst pkts =
     map_of [(COL_TIMESTAMP, ts), (COL_SOURCE_IP, src), (COL_DEST_IP, dst),
             (COL_FWD_PACKETS, pkts), (COL_FLOW_DURATION, ''0.150''),
             (COL_TOTAL_LENGTH, ''1024''), (COL_LABEL, ''BENIGN'')]"

definition sampleRowNoSource :: csv_row where
  "sampleRowNoSource =
     map_of [(COL_TIMESTAMP, ''2024-01-15T10:30:00Z''), (COL_DEST_IP, ''10.0.0.1''),
             (COL_FWD_PACKETS, ''5''), (COL_FLOW_DURATION, ''0.150''),
             (COL_TOTAL_LENGTH, ''1024''), (COL_LABEL, ''BENIGN'')]"

definition sampleRows :: "csv_row list" where
  "sampleRows =
     [sampleRow ''2024-01-15T10:30:00Z'' '' 192.168.1.100 '' ''10.0.0.1'' ''5'',
      sampleRowNoSource,
      sampleRow ''2024-01-15T10:30:00Z'' ''192.168.1.100'' ''10.0.0.1'' ''-10'',
      sampleRow ''2024-01-15T10:30:00Z'' ''192.168.1.100'' ''  '' ''5'',
      sampleRow ''2024-01-15T10:30:00Z'' ''192.168.1.100'' ''10.0.0.1'' ''0'']"

definition sampleParsed :: "log_record list" where
  "sampleParsed =
     (case intCounts (fst (parseCSVLogs sampleParseFloat ''flows.csv'' sampleRows)) of
        Some logs \<Rightarrow> logs
      | None \<Rightarrow> [])"



definition paddedCountRow :: csv_row where
  "paddedCountRow =
     sampleRow ''2024-01-15T10:30:00Z'' ''192.168.1.100'' ''10.0.0.1'' ''  -10 pkts''"

definition synLogs :: "log_record list" where
  "synLogs = [sampleEntry ''1970-01-01T00:00:00Z'' ''203.0.113.5'' 1 ''Syn'']"

definition dnsLogs :: "log_record list" where
  "dnsLogs =
     [sampleEntry ''1970-01-01T00:00:00Z'' ''203.0.113.5'' 1 ''DrDoS_DNS'',
      sampleEntry ''1970-01-01T00:00:00Z'' ''203.0.113.5'' 1 ''Syn'',
      sampleEntry ''1970-01-01T00:01:00Z'' ''203.0.113.5'' 1 ''DrDoS_DNS'']"

section \<open>Equations for evaluation\<close>

text \<open>
  Three equations that let the samples be evaluated: the loop body without its local
  bindings, and the two label and user-agent tests with the configured lists already in
  lower case.
\<close>

lemma analyzeGroup_code [code]:
  "analyzeGroup clock acc g =
     flagGroup clock (fst acc) g (windowFrequency g) (scoreGroup (snd acc) g (windowFrequency g))"
  by (simp add: analyzeGroup_def Let_def windowFrequency_def)

lemma lowerCase_KNOWN_DDOS_LABELS:
  "map toLowerCase (KNOWN_DDOS_LABELS DETECTION_CONFIG) =
     [''drdos_dns'', ''drdos_ldap'', ''drdos_mssql'', ''drdos_netbios'', ''drdos_ntp'',
      ''drdos_snmp'', ''drdos_ssdp'', ''drdos_udp'', ''drdos_webddos'', ''syn'', ''tftp'',
      ''udp'', ''udp-lag'', ''webddos'', ''ldap'', ''mssql'', ''netbios'', ''ntp'', ''snmp'',
      ''ssdp'']"
  by code_simp

lemma lowerCase_SUSPICIOUS_USER_AGENTS:
  "map toLowerCase (SUSPICIOUS_USER_AGENTS DETECTION_CONFIG) =
     SUSPICIOUS_USER_AGENTS DETECTION_CONFIG"
  by code_simp

lemma list_ex_map: "list_ex P (map f xs) = list_ex (\<lambda>x. P (f x)) xs"
  by (induction xs) auto

lemma isKnownDDoSAttack_code [code]:
  "isKnownDDoSAttack lbl =
     (if lbl = [] then False
      else toLowerCase lbl \<in> set
        [''drdos_dns'', ''drdos_ldap'', ''drdos_mssql'', ''drdos_netbios'', ''drdos_ntp'',
         ''drdos_snmp'', ''drdos_ssdp'', ''drdos_udp'', ''drdos_webddos'', ''syn'', ''tftp'',
         ''udp'', ''udp-lag'', ''webddos'', ''ldap'', ''mssql'', ''netbios'', ''ntp'', ''snmp'',
         ''ssdp''])"
proof -
  have "list_ex (\<lambda>knownLabel. toLowerCase lbl = toLowerCase knownLabel)
          (KNOWN_DDOS_LABELS DETECTION_CONFIG) =
        list_ex (\<lambda>k. toLowerCase lbl = k) (map toLowerCase (KNOWN_DDOS_LABELS DETECTION_CONFIG))"
    by (simp add: list_ex_map)
  also have "\<dots> = (toLowerCase lbl \<in> set (map toLowerCase (KNOWN_DDOS_LABELS DETECTION_CONFIG)))"
    by (auto simp: list_ex_iff)
  finally show ?thesis
    unfolding isKnownDDoSAttack_def lowerCase_KNOWN_DDOS_LABELS by simp
qed

lemma isSuspiciousUserAgent_code [code]:
  "isSuspiciousUserAgent ua =
     (if ua = [] then False
      else includesAny (toLowerCase ua) (SUSPICIOUS_USER_AGENTS DETECTION_CONFIG))"
proof -
  have "list_ex (\<lambda>pattern. includesStr (toLowerCase ua) (toLowerCase pattern))
          (SUSPICIOUS_USER_AGENTS DETECTION_CONFIG) =
        list_ex (includesStr (toLowerCase ua)) (map toLowerCase (SUSPICIOUS_USER_AGENTS DETECTION_CONFIG))"
    by (simp add: list_ex_map)
  then show ?thesis
    unfolding isSuspiciousUserAgent_def lowerCase_SUSPICIOUS_USER_AGENTS includesAny_def Let_def
    by simp
qed

section \<open>The window grouper partitions its input\<close>

lemma entries_addToGroup:
  "window_group.entries (addToGroup e g) = window_group.entries g @ [e]"
  by (simp add: addToGroup_def Let_def)


lemma keys_modifyGroup: "map fst (modifyGroup key f gs) = map fst gs"
  by (induction gs) auto

lemma set_modifyGroup:
  "distinct (map fst gs) \<Longrightarrow>
   set (modifyGroup key f gs) =
     {(k, g). (k, g) \<in> set gs \<and> k \<noteq> key} \<union> {(key, f g) | g. (key, g) \<in> set gs}"
proof (induction gs)
  case Nil
  then show ?case by simp
next
  case (Cons a gs)
  obtain k g where a: "a = (k, g)" by (cases a)
  show ?case
  proof (cases "k = key")
    case True
    with Cons.prems a have "key \<notin> fst ` set gs" by auto
    then have "\<And>g'. (key, g') \<notin> set gs" by force
    with True a show ?thesis by auto
  next
    case False
    with Cons a show ?thesis by auto
  qed
qed



lemma map_of_None_iff: "map_of gs key = None \<longleftrightarrow> key \<notin> fst ` set gs"
  by (simp add: map_of_eq_None_iff)

lemma step_new:
  "key = keyOf d w e \<Longrightarrow> key \<notin> fst ` set gs \<Longrightarrow>
   groupByIPAndTime_step d w gs e =
     gs @ [(key, addToGroup e (newGroup (log_entry.sourceIP e) (timeKeyOf d w e)))]"
proof -
  assume k: "key = keyOf d w e" and n: "key \<notin> fst ` set gs"
  have "modifyGroup key f (gs @ [(key, g)]) = gs @ [(key, f g)]" for f g
    using n by (induction gs) auto
  with k n show ?thesis
    by (simp add: groupByIPAndTime_step_def Let_def map_of_None_iff)
qed

lemma step_old:
  "keyOf d w e \<in> fst ` set gs \<Longrightarrow>
   groupByIPAndTime_step d w gs e = modifyGroup (keyOf d w e) (addToGroup e) gs"
  by (simp add: groupByIPAndTime_step_def Let_def map_of_None_iff)

lemma groupByIPAndTime_snoc:
  "groupByIPAndTime d (logs @ [e]) w = groupByIPAndTime_step d w (groupByIPAndTime d logs w) e"
  by (simp add: groupByIPAndTime_def)

lemma keys_step:
  "map fst (groupByIPAndTime_step d w gs e) =
     (if keyOf d w e \<in> fst ` set gs then map fst gs else map fst gs @ [keyOf d w e])"
  by (simp add: step_new step_old keys_modifyGroup)

lemma distinct_keys: "distinct (map fst (groupByIPAndTime d logs w))"
proof (induction logs rule: rev_induct)
  case Nil
  then show ?case by (simp add: groupByIPAndTime_def)
next
  case (snoc e logs)
  then show ?case by (auto simp: groupByIPAndTime_snoc keys_step)
qed

lemma keys_set: "fst ` set (groupByIPAndTime d logs w) = keyOf d w ` set logs"
proof (induction logs rule: rev_induct)
  case Nil
  then show ?case by (simp add: groupByIPAndTime_def)
next
  case (snoc e logs)
  have "set (map fst (groupByIPAndTime d (logs @ [e]) w)) = keyOf d w ` set (logs @ [e])"
    unfolding groupByIPAndTime_snoc keys_step using snoc by auto
  then show ?case by simp
qed


lemma filter_key_absent: "k \<notin> f ` set xs \<Longrightarrow> filter (\<lambda>x. f x = k) xs = []"
  by (induction xs) auto

lemma group_contents:
  "(k, g) \<in> set (groupByIPAndTime d logs w) \<Longrightarrow>
   builtFrom g (filter (\<lambda>e. keyOf d w e = k) logs) \<and> filter (\<lambda>e. keyOf d w e = k) logs \<noteq> []"
proof (induction logs arbitrary: k g rule: rev_induct)
  case Nil
  then show ?case by (simp add: groupByIPAndTime_def)
next
  case (snoc e logs)
  let ?gs = "groupByIPAndTime d logs w"
  show ?case
  proof (cases "keyOf d w e \<in> fst ` set ?gs")
    case False
    with snoc.prems have "(k, g) \<in> set ?gs \<or>
        (k = keyOf d w e \<and> g = addToGroup e (newGroup (log_entry.sourceIP e) (timeKeyOf d w e)))"
      by (auto simp: groupByIPAndTime_snoc step_new [OF refl False])
    then show ?thesis
    proof
      assume in_old: "(k, g) \<in> set ?gs"
      then have "k \<noteq> keyOf d w e" using False by force
      with snoc.IH [OF in_old] show ?thesis by auto
    next
      assume new: "k = keyOf d w e \<and> g = addToGroup e (newGroup (log_entry.sourceIP e) (timeKeyOf d w e))"
      from False have "keyOf d w e \<notin> keyOf d w ` set logs" by (simp add: keys_set)
      then have "filter (\<lambda>x. keyOf d w x = keyOf d w e) logs = []"
        by (rule filter_key_absent)
      with new show ?thesis by (auto simp: builtFrom_def)
    qed
  next
    case True
    with snoc.prems have "(k, g) \<in> set (modifyGroup (keyOf d w e) (addToGroup e) ?gs)"
      by (simp add: groupByIPAndTime_snoc step_old)
    then have "((k, g) \<in> set ?gs \<and> k \<noteq> keyOf d w e) \<or>
               (k = keyOf d w e \<and> (\<exists>g0. (k, g0) \<in> set ?gs \<and> g = addToGroup e g0))"
      by (auto simp: set_modifyGroup [OF distinct_keys])
    then show ?thesis
    proof
      assume "(k, g) \<in> set ?gs \<and> k \<noteq> keyOf d w e"
      with snoc.IH [of k g] show ?thesis by auto
    next
      assume "k = keyOf d w e \<and> (\<exists>g0. (k, g0) \<in> set ?gs \<and> g = addToGroup e g0)"
      then obtain g0 where k: "k = keyOf d w e" and g0: "(k, g0) \<in> set ?gs" and g: "g = addToGroup e g0"
        by blast
      from snoc.IH [OF g0] k g show ?thesis by (auto simp: builtFrom_def)
    qed
  qed
qed

lemma builtFrom_entries: "builtFrom g es \<Longrightarrow> window_group.entries g = es"
proof -
  have "window_group.entries (foldl (\<lambda>g e. addToGroup e g) g0 es) = window_group.entries g0 @ es" for g0
    by (induction es arbitrary: g0) (auto simp: entries_addToGroup)
  then show "builtFrom g es \<Longrightarrow> window_group.entries g = es"
    by (auto simp: builtFrom_def newGroup_def)
qed




section \<open>Scoring, flagging and ranking\<close>

lemma sameScore_applyRule:
  "sameScore a b \<Longrightarrow> sameScore (applyRule g f a r) (applyRule g f b r)"
  by (simp add: sameScore_def applyRule_def)

lemma sameScore_checkLabel:
  "sameScore a b \<Longrightarrow> sameScore (checkLabel a l) (checkLabel b l)"
  by (simp add: sameScore_def checkLabel_def Let_def)

lemma sameScore_foldl_rules:
  "sameScore a b \<Longrightarrow> sameScore (foldl (applyRule g f) a rs) (foldl (applyRule g f) b rs)"
  by (induction rs arbitrary: a b) (simp_all add: sameScore_applyRule)

lemma sameScore_foldl_labels:
  "sameScore a b \<Longrightarrow> sameScore (foldl checkLabel a ls) (foldl checkLabel b ls)"
  by (induction ls arbitrary: a b) (simp_all add: sameScore_checkLabel)

lemma sameScore_scoreGroup: "sameScore (scoreGroup st g f) (scoreGroup st' g f)"
proof -
  let ?sc = "\<lambda>s. \<lparr>scoring.suspiciousIndicators = [], riskScore = 0, groupHasDrDoSDNS = False,
                   groupHasLabeledAttack = False, stats = s\<rparr>"
  have "sameScore (?sc st) (?sc st')"
    by (simp add: sameScore_def)
  then have r: "sameScore (foldl (applyRule g f) (?sc st) indicatorRules)
                          (foldl (applyRule g f) (?sc st') indicatorRules)"
    by (rule sameScore_foldl_rules)
  show ?thesis
  proof (cases "window_group.labels g = []")
    case True
    with r show ?thesis by (simp add: scoreGroup_def)
  next
    case False
    with sameScore_foldl_labels [OF r] show ?thesis by (simp add: scoreGroup_def)
  qed
qed

lemma makeFlaggedEntry_cong:
  "sameScore a b \<Longrightarrow> makeFlaggedEntry now g f a = makeFlaggedEntry now g f b"
  by (simp add: sameScore_def makeFlaggedEntry_def)

lemma analyzeGroup_fst:
  "fst (analyzeGroup clock (fl, st) g) =
     (if 2 \<le> windowRisk g then fl @ [flaggedWindow clock (length fl, g)] else fl)"
proof -
  let ?f = "windowFrequency g"
  have s: "sameScore (scoreGroup st g ?f) (windowScore g)"
    unfolding windowScore_def by (rule sameScore_scoreGroup)
  then have r: "scoring.riskScore (scoreGroup st g ?f) = windowRisk g"
    by (simp add: sameScore_def windowRisk_def)
  show ?thesis
    using makeFlaggedEntry_cong [OF s] r
    by (simp add: analyzeGroup_def flagGroup_def Let_def flaggedWindow_def windowFrequency_def)
qed

lemma foldl_analyzeGroup_fst:
  "fst (foldl (analyzeGroup clock) (fl, st) gs) =
     fl @ map (flaggedWindow clock)
            (enumerate (length fl) (filter (\<lambda>g. 2 \<le> windowRisk g) gs))"
proof (induction gs arbitrary: fl st)
  case Nil
  then show ?case by simp
next
  case (Cons g gs)
  obtain fl' st' where a: "analyzeGroup clock (fl, st) g = (fl', st')"
    by (cases "analyzeGroup clock (fl, st) g")
  with analyzeGroup_fst [of clock fl st g]
  have fl': "fl' = (if 2 \<le> windowRisk g
                    then fl @ [flaggedWindow clock (length fl, g)] else fl)"
    by simp
  show ?case
    using Cons.IH [of fl' st'] a fl' by simp
qed

lemma analyzeWindows_fst:
  "fst (analyzeWindows d clock logs) =
     map (flaggedWindow clock)
       (enumerate 0 (filter (\<lambda>g. 2 \<le> windowRisk g)
          (objectValues (groupByIPAndTime d logs (ANALYSIS_WINDOW DETECTION_CONFIG)))))"
  by (simp add: analyzeWindows_def foldl_analyzeGroup_fst)

lemma riskScore_foldl_rules:
  "scoring.riskScore (foldl (applyRule g f) sc rs) =
     scoring.riskScore sc + sum_list (map risk (filter (\<lambda>r. check r g f) rs))"
  by (induction rs arbitrary: sc) (simp_all add: applyRule_def)

lemma riskScore_foldl_labels:
  "scoring.riskScore (foldl checkLabel sc ls) =
     scoring.riskScore sc + 5 * int (length (filter (\<lambda>l. includesStr l ''DrDoS_DNS'') ls))"
  by (induction ls arbitrary: sc) (simp_all add: checkLabel_def Let_def)

lemma riskScore_scoreGroup:
  "scoring.riskScore (scoreGroup st g f) =
     sum_list (map risk (filter (\<lambda>r. check r g f) indicatorRules)) +
     5 * int (length (filter (\<lambda>l. includesStr l ''DrDoS_DNS'') (window_group.labels g)))"
  by (simp add: scoreGroup_def Let_def riskScore_foldl_rules riskScore_foldl_labels)

lemma mset_insertBy: "mset (insertBy cmp x xs) = add_mset x (mset xs)"
  by (induction xs) auto

lemma mset_sortBy: "mset (sortBy cmp xs) = mset xs"
  by (induction xs) (auto simp: mset_insertBy)

lemma set_insertBy: "set (insertBy cmp x xs) = insert x (set xs)"
  by (induction xs) auto

lemma sorted_insertBy:
  "sorted_wrt (\<lambda>a b. flagged_entry.riskScore b \<le> flagged_entry.riskScore a) xs \<Longrightarrow>
   sorted_wrt (\<lambda>a b. flagged_entry.riskScore b \<le> flagged_entry.riskScore a)
     (insertBy byRiskDescending x xs)"
  by (induction xs) (auto simp: set_insertBy byRiskDescending_def)

lemma sorted_sortBy:
  "sorted_wrt (\<lambda>a b. flagged_entry.riskScore b \<le> flagged_entry.riskScore a)
     (sortBy byRiskDescending xs)"
  by (induction xs) (auto simp: sorted_insertBy)

lemma filter_insertBy:
  "sorted_wrt (\<lambda>a b. flagged_entry.riskScore b \<le> flagged_entry.riskScore a) xs \<Longrightarrow>
   filter (\<lambda>f. flagged_entry.riskScore f = k) (insertBy byRiskDescending x xs) =
     (if flagged_entry.riskScore x = k then x # filter (\<lambda>f. flagged_entry.riskScore f = k) xs
      else filter (\<lambda>f. flagged_entry.riskScore f = k) xs)"
proof (induction xs)
  case Nil
  then show ?case by simp
next
  case (Cons y ys)
  then show ?case
    by (auto simp: byRiskDescending_def)
qed

lemma filter_sortBy:
  "filter (\<lambda>f. flagged_entry.riskScore f = k) (sortBy byRiskDescending xs) =
   filter (\<lambda>f. flagged_entry.riskScore f = k) xs"
  by (induction xs) (auto simp: filter_insertBy sorted_sortBy)

lemma insertBy_map:
  "(\<And>a b. cmp (h a) (h b) = cmp a b) \<Longrightarrow>
   map h (insertBy cmp x xs) = insertBy cmp (h x) (map h xs)"
  by (induction xs) auto

lemma sortBy_map:
  "(\<And>a b. cmp (h a) (h b) = cmp a b) \<Longrightarrow> map h (sortBy cmp xs) = sortBy cmp (map h xs)"
  by (induction xs) (auto simp: insertBy_map)

lemma snd_analyzeGroup:
  "snd (analyzeGroup clock (fl, st) g) = stats (scoreGroup st g (windowFrequency g))"
  by (simp add: analyzeGroup_def flagGroup_def Let_def windowFrequency_def)

lemma foldl_analyzeGroup_snd:
  "snd (foldl (analyzeGroup c1) (fl1, st) gs) = snd (foldl (analyzeGroup c2) (fl2, st) gs)"
proof (induction gs arbitrary: fl1 fl2 st)
  case Nil
  then show ?case by simp
next
  case (Cons g gs)
  obtain a1 s1 where a1: "analyzeGroup c1 (fl1, st) g = (a1, s1)"
    by (cases "analyzeGroup c1 (fl1, st) g")
  obtain a2 s2 where a2: "analyzeGroup c2 (fl2, st) g = (a2, s2)"
    by (cases "analyzeGroup c2 (fl2, st) g")
  from a1 a2 snd_analyzeGroup [of c1 fl1 st g] snd_analyzeGroup [of c2 fl2 st g]
  have "s1 = s2" by simp
  with Cons.IH [of a1 s1 a2] a1 a2 show ?case by simp
qed

lemma eraseTimestamp_flaggedWindow:
  "eraseTimestamp (flaggedWindow c1 (i, g)) = eraseTimestamp (flaggedWindow c2 (j, g))"
  by (simp add: eraseTimestamp_def flaggedWindow_def makeFlaggedEntry_def)

lemma map_eraseTimestamp_enumerate:
  "map (eraseTimestamp \<circ> flaggedWindow c1) (enumerate n gs) =
   map (eraseTimestamp \<circ> flaggedWindow c2) (enumerate n gs)"
  by (induction gs arbitrary: n) (simp_all add: eraseTimestamp_flaggedWindow)

lemma byRiskDescending_eraseTimestamp:
  "byRiskDescending (eraseTimestamp a) (eraseTimestamp b) = byRiskDescending a b"
  by (simp add: byRiskDescending_def eraseTimestamp_def)

text \<open>
  C2. The list built by the loop over the windows holds one entry for each window whose
  risk score is at least 2, in window order, and none for any other window (so none for
  a window of score 1); sorting only permutes it; the entry carries the score of its
  window; and that score is the sum of the weights of the rules that fire plus 5 for
  each label of the window that contains \<open>DrDoS_DNS\<close>.
\<close>

theorem flagged_iff_risk_at_least_2:
  "fst (analyzeWindows d clock logs) =
     map (flaggedWindow clock)
       (enumerate 0 (filter (\<lambda>g. 2 \<le> windowRisk g)
          (objectValues (groupByIPAndTime d logs (ANALYSIS_WINDOW DETECTION_CONFIG))))) \<and>
   mset (flaggedEntries (analyzeLogsForDDoS d clock logs)) = mset (fst (analyzeWindows d clock logs)) \<and>
   flagged_entry.riskScore (flaggedWindow clock (i, g)) = windowRisk g \<and>
   windowRisk g =
     sum_list (map risk (filter (\<lambda>r. check r g (windowFrequency g)) indicatorRules)) +
     5 * int (length (filter (\<lambda>l. includesStr l ''DrDoS_DNS'') (window_group.labels g)))"
proof (intro conjI)
  show "fst (analyzeWindows d clock logs) =
     map (flaggedWindow clock)
       (enumerate 0 (filter (\<lambda>g. 2 \<le> windowRisk g)
          (objectValues (groupByIPAndTime d logs (ANALYSIS_WINDOW DETECTION_CONFIG)))))"
    by (rule analyzeWindows_fst)
  show "mset (flaggedEntries (analyzeLogsForDDoS d clock logs)) = mset (fst (analyzeWindows d clock logs))"
    by (simp add: analyzeLogsForDDoS_def Let_def mset_sortBy)
  show "flagged_entry.riskScore (flaggedWindow clock (i, g)) = windowRisk g"
    by (simp add: flaggedWindow_def makeFlaggedEntry_def windowRisk_def)
  show "windowRisk g =
     sum_list (map risk (filter (\<lambda>r. check r g (windowFrequency g)) indicatorRules)) +
     5 * int (length (filter (\<lambda>l. includesStr l ''DrDoS_DNS'') (window_group.labels g)))"
    unfolding windowRisk_def windowScore_def by (rule riskScore_scoreGroup)
qed

theorem flagged_iff_risk_at_least_2_witness:
  "map windowRisk
     (objectValues (groupByIPAndTime sampleDate boundaryLogs (ANALYSIS_WINDOW DETECTION_CONFIG))) =
     [1, 2, 3, 0, 2] \<and>
   map flagged_entry.riskScore
     (map (flaggedWindow sampleClock)
        (enumerate 0 (filter (\<lambda>g. 2 \<le> windowRisk g)
           (objectValues (groupByIPAndTime sampleDate boundaryLogs (ANALYSIS_WINDOW DETECTION_CONFIG)))))) =
     [2, 3, 2]"
proof -
  have g: "map windowRisk
     (objectValues (groupByIPAndTime sampleDate boundaryLogs (ANALYSIS_WINDOW DETECTION_CONFIG))) =
     [1, 2, 3, 0, 2]"
    by code_simp
  have f: "map flagged_entry.riskScore (fst (analyzeWindows sampleDate sampleClock boundaryLogs)) =
     [2, 3, 2]"
    by code_simp
  from flagged_iff_risk_at_least_2 [of sampleDate sampleClock boundaryLogs] g f
  show ?thesis by simp
qed

lemma windowFrequency_eq:
  "windowFrequency g = Fin (of_int (totalRequests g) / of_int (ANALYSIS_WINDOW DETECTION_CONFIG))"
  by (simp add: windowFrequency_def calculateRequestFrequency_def divNum_def DETECTION_CONFIG_def)

lemma set_flaggedEntries:
  "f \<in> set (flaggedEntries (analyzeLogsForDDoS d clock logs)) \<Longrightarrow>
   \<exists>i g. f = flaggedWindow clock (i, g)"
proof -
  assume "f \<in> set (flaggedEntries (analyzeLogsForDDoS d clock logs))"
  then have "f \<in># mset (sortBy byRiskDescending (fst (analyzeWindows d clock logs)))"
    by (simp add: analyzeLogsForDDoS_def Let_def)
  then have "f \<in> set (fst (analyzeWindows d clock logs))"
    by (simp add: mset_sortBy)
  then show ?thesis
    unfolding analyzeWindows_fst by auto
qed

text \<open>
  C3. For every window the frequency handed to the rules and stored in the flagged entry
  is the total request count divided by the configured window length, whatever the
  time stamps of its records; every flagged entry of a run reports its request count
  divided by that length; and 500 requests in the 5-minute window give exactly 100.
\<close>

theorem frequency_uses_configured_window:
  "analyzeGroup clock acc g =
     flagGroup clock (fst acc) g
       (Fin (of_int (totalRequests g) / of_int (ANALYSIS_WINDOW DETECTION_CONFIG)))
       (scoreGroup (snd acc) g
          (Fin (of_int (totalRequests g) / of_int (ANALYSIS_WINDOW DETECTION_CONFIG)))) \<and>
   (\<forall>f \<in> set (flaggedEntries (analyzeLogsForDDoS d clock logs)).
      requestFrequency f =
        Fin (of_int (flagged_entry.requestCount f) / of_int (ANALYSIS_WINDOW DETECTION_CONFIG))) \<and>
   calculateRequestFrequency 500 (ANALYSIS_WINDOW DETECTION_CONFIG) = Fin 100"
proof (intro conjI ballI)
  show "analyzeGroup clock acc g =
     flagGroup clock (fst acc) g
       (Fin (of_int (totalRequests g) / of_int (ANALYSIS_WINDOW DETECTION_CONFIG)))
       (scoreGroup (snd acc) g
          (Fin (of_int (totalRequests g) / of_int (ANALYSIS_WINDOW DETECTION_CONFIG))))"
    by (simp only: analyzeGroup_code windowFrequency_eq)
  show "calculateRequestFrequency 500 (ANALYSIS_WINDOW DETECTION_CONFIG) = Fin 100"
    by (simp add: calculateRequestFrequency_def divNum_def DETECTION_CONFIG_def)
next
  fix f
  assume "f \<in> set (flaggedEntries (analyzeLogsForDDoS d clock logs))"
  then obtain i g where "f = flaggedWindow clock (i, g)"
    using set_flaggedEntries by blast
  then show "requestFrequency f =
        Fin (of_int (flagged_entry.requestCount f) / of_int (ANALYSIS_WINDOW DETECTION_CONFIG))"
    by (simp add: flaggedWindow_def makeFlaggedEntry_def windowFrequency_eq)
qed

theorem frequency_uses_configured_window_witness:
  "map flagged_entry.requestCount
     (flaggedEntries (analyzeLogsForDDoS sampleDate sampleClock burstLogs)) = [500] \<and>
   map requestFrequency
     (flaggedEntries (analyzeLogsForDDoS sampleDate sampleClock burstLogs)) = [Fin 100]"
proof -
  have c: "map flagged_entry.requestCount
     (flaggedEntries (analyzeLogsForDDoS sampleDate sampleClock burstLogs)) = [500]"
    by code_simp
  then obtain f where f: "flaggedEntries (analyzeLogsForDDoS sampleDate sampleClock burstLogs) = [f]"
    by auto
  with frequency_uses_configured_window [of sampleClock _ _ sampleDate burstLogs] c
  show ?thesis by (simp add: DETECTION_CONFIG_def)
qed

text \<open>
  C7. The flagged list of the output is in descending order of risk score, and for
  every score the entries of that score stand in the order in which the loop over the
  windows produced them, which is the order of the windows in the map.
\<close>

theorem flagged_sorted_stable:
  "sorted_wrt (\<lambda>a b. flagged_entry.riskScore b \<le> flagged_entry.riskScore a)
     (flaggedEntries (analyzeLogsForDDoS d clock logs)) \<and>
   filter (\<lambda>f. flagged_entry.riskScore f = k) (flaggedEntries (analyzeLogsForDDoS d clock logs)) =
     filter (\<lambda>f. flagged_entry.riskScore f = k) (fst (analyzeWindows d clock logs)) \<and>
   fst (analyzeWindows d clock logs) =
     map (flaggedWindow clock)
       (enumerate 0 (filter (\<lambda>g. 2 \<le> windowRisk g)
          (objectValues (groupByIPAndTime d logs (ANALYSIS_WINDOW DETECTION_CONFIG)))))"
  by (simp add: analyzeLogsForDDoS_def Let_def sorted_sortBy filter_sortBy analyzeWindows_fst)

theorem flagged_sorted_stable_witness:
  "map flagged_entry.requestCount (fst (analyzeWindows sampleDate sampleClock boundaryLogs)) =
     [250, 500, 300] \<and>
   map flagged_entry.requestCount
     (flaggedEntries (analyzeLogsForDDoS sampleDate sampleClock boundaryLogs)) = [500, 250, 300] \<and>
   map flagged_entry.requestCount
     (filter (\<lambda>f. flagged_entry.riskScore f = 2)
        (flaggedEntries (analyzeLogsForDDoS sampleDate sampleClock boundaryLogs))) = [250, 300]"
proof -
  have u: "map flagged_entry.requestCount (fst (analyzeWindows sampleDate sampleClock boundaryLogs)) =
     [250, 500, 300]"
    by code_simp
  have r: "map flagged_entry.riskScore (fst (analyzeWindows sampleDate sampleClock boundaryLogs)) =
     [2, 3, 2]"
    by code_simp
  have s: "map flagged_entry.requestCount
     (flaggedEntries (analyzeLogsForDDoS sampleDate sampleClock boundaryLogs)) = [500, 250, 300]"
    by code_simp
  from u r obtain a b c where
    abc: "fst (analyzeWindows sampleDate sampleClock boundaryLogs) = [a, b, c]"
      "flagged_entry.requestCount a = 250" "flagged_entry.requestCount c = 300"
      "flagged_entry.riskScore a = 2" "flagged_entry.riskScore b = 3" "flagged_entry.riskScore c = 2"
    by auto
  with flagged_sorted_stable [of sampleDate sampleClock boundaryLogs 2] u s
  show ?thesis by simp
qed

text \<open>
  C6, as amended. For a fixed date parser and record list, two runs that read different
  clocks give the same statistics, the same configuration and the same flagged entries
  in the same order, up to the \<open>timestamp\<close> field of the flagged entries.
\<close>

theorem output_independent_of_clock_up_to_timestamps:
  "map eraseTimestamp (flaggedEntries (analyzeLogsForDDoS d clock1 logs)) =
     map eraseTimestamp (flaggedEntries (analyzeLogsForDDoS d clock2 logs)) \<and>
   analysisStats (analyzeLogsForDDoS d clock1 logs) = analysisStats (analyzeLogsForDDoS d clock2 logs) \<and>
   analysisConfig (analyzeLogsForDDoS d clock1 logs) = analysisConfig (analyzeLogsForDDoS d clock2 logs)"
proof -
  let ?gs = "enumerate 0 (filter (\<lambda>g. 2 \<le> windowRisk g)
          (objectValues (groupByIPAndTime d logs (ANALYSIS_WINDOW DETECTION_CONFIG))))"
  have h: "map eraseTimestamp (sortBy byRiskDescending (map (flaggedWindow c) ?gs)) =
        sortBy byRiskDescending (map (eraseTimestamp \<circ> flaggedWindow c) ?gs)" for c
    by (simp add: sortBy_map byRiskDescending_eraseTimestamp)
  have e: "map (eraseTimestamp \<circ> flaggedWindow clock1) ?gs =
           map (eraseTimestamp \<circ> flaggedWindow clock2) ?gs"
    by (rule map_eraseTimestamp_enumerate)
  have "map eraseTimestamp (sortBy byRiskDescending (map (flaggedWindow clock1) ?gs)) =
        map eraseTimestamp (sortBy byRiskDescending (map (flaggedWindow clock2) ?gs))"
    by (simp only: h e)
  moreover have "snd (analyzeWindows d clock1 logs) = snd (analyzeWindows d clock2 logs)"
    unfolding analyzeWindows_def by (rule foldl_analyzeGroup_snd)
  ultimately show ?thesis
    by (simp add: analyzeLogsForDDoS_def Let_def analyzeWindows_fst)
qed

text \<open>
  C6 as stated fails: the same records analysed under two clock readings give two
  different outputs.
\<close>

theorem two_runs_differ_counterexample:
  "analyzeLogsForDDoS sampleDate sampleClock burstLogs \<noteq>
   analyzeLogsForDDoS sampleDate laterClock burstLogs"
proof
  assume "analyzeLogsForDDoS sampleDate sampleClock burstLogs =
          analyzeLogsForDDoS sampleDate laterClock burstLogs"
  then have "map flagged_entry.timestamp
               (flaggedEntries (analyzeLogsForDDoS sampleDate sampleClock burstLogs)) =
             map flagged_entry.timestamp
               (flaggedEntries (analyzeLogsForDDoS sampleDate laterClock burstLogs))"
    by simp
  moreover have "map flagged_entry.timestamp
      (flaggedEntries (analyzeLogsForDDoS sampleDate sampleClock burstLogs)) =
      [''2024-01-15T10:30:00.000Z'']"
    by code_simp
  moreover have "map flagged_entry.timestamp
      (flaggedEntries (analyzeLogsForDDoS sampleDate laterClock burstLogs)) =
      [''2024-01-15T11:45:00.000Z'']"
    by code_simp
  ultimately show False by simp
qed

section \<open>The normalizers and the streaming adapter\<close>

lemma trimOr_sentinel:
  "sentinel \<noteq> [] \<Longrightarrow> trimOr cell sentinel = sentinel \<longleftrightarrow> missingOrSentinel cell sentinel"
  by (auto simp: trimOr_def missingOrSentinel_def split: option.splits)

lemma missingRequired_mapRow: "missingRequired (mapRow pf data) = rejectedRow data"
  by (simp add: missingRequired_def mapRow_def rejectedRow_def trimOr_sentinel)

lemma normalizeLogEntry_eq:
  "normalizeLogEntry pf data n =
     (if rejectedRow data then Inl (WARN, skipMessage n) else Inr (mapRow pf data))"
  by (simp add: normalizeLogEntry_def Let_def missingRequired_mapRow)

lemma parseCSVLogs_onData_eq:
  "parseCSVLogs_onData pf st data =
     (if rejectedRow data
      then st\<lparr>logged := logged st @ [(WARN, skipMessage (parse_state.rowNumber st))],
              parse_state.rowNumber := parse_state.rowNumber st + 1\<rparr>
      else st\<lparr>parsedResults := parsedResults st @ [mapRow pf data],
              parse_state.rowNumber := parse_state.rowNumber st + 1\<rparr>)"
  by (simp add: parseCSVLogs_onData_def Let_def missingRequired_mapRow)

lemma foldl_parseCSVLogs_onData:
  "foldl (parseCSVLogs_onData pf) st rows =
     st\<lparr>parsedResults := parsedResults st @ acceptedRecords pf rows,
        parse_state.rowNumber := parse_state.rowNumber st + length rows,
        logged := logged st @ warningsFrom (parse_state.rowNumber st) rows\<rparr>"
proof (induction rows arbitrary: st)
  case Nil
  then show ?case by (simp add: acceptedRecords_def)
next
  case (Cons r rows)
  then show ?case
    by (simp add: parseCSVLogs_onData_eq acceptedRecords_def)
qed

lemma fst_parseCSVLogs: "fst (parseCSVLogs pf file rows) = acceptedRecords pf rows"
  by (simp add: parseCSVLogs_def parseCSVLogs_onEnd_def foldl_parseCSVLogs_onData)















subsection \<open>The number read from a cell\<close>

lemma scaleOf_small: "a < 2 ^ 53 \<Longrightarrow> scaleOf a = 1"
  by (simp add: scaleOf.simps)

lemma roundMagnitude_small: "a < 2 ^ 53 \<Longrightarrow> roundMagnitude a = a"
  by (simp add: roundMagnitude_def scaleOf_small)

lemma roundMagnitude_2_53: "roundMagnitude (2 ^ 53) = 2 ^ 53"
  by code_simp

lemma roundMagnitude_exact: "a \<le> 2 ^ 53 \<Longrightarrow> roundMagnitude a = a"
  using roundMagnitude_small [of a] roundMagnitude_2_53 by (cases "a = 2 ^ 53") auto

lemma roundDouble_exact: "\<bar>m\<bar> \<le> 2 ^ 53 \<Longrightarrow> roundDouble m = Fin m"
proof -
  assume a: "\<bar>m\<bar> \<le> 2 ^ 53"
  have "(2::int) ^ 53 < 2 ^ 1024" by simp
  with a have "\<not> (2::int) ^ 1024 \<le> \<bar>m\<bar>" by linarith
  with a show ?thesis
    by (simp add: roundDouble_def roundMagnitude_exact Let_def)
qed

lemma digit_table:
  "zip ''0123456789abcdef'' [0 .. 15] @ zip ''ABCDEF'' [10 .. 15] =
     [(CHR ''0'', 0), (CHR ''1'', 1), (CHR ''2'', 2), (CHR ''3'', 3), (CHR ''4'', 4),
      (CHR ''5'', 5), (CHR ''6'', 6), (CHR ''7'', 7), (CHR ''8'', 8), (CHR ''9'', 9),
      (CHR ''a'', 10), (CHR ''b'', 11), (CHR ''c'', 12), (CHR ''d'', 13), (CHR ''e'', 14),
      (CHR ''f'', 15), (CHR ''A'', 10), (CHR ''B'', 11), (CHR ''C'', 12), (CHR ''D'', 13),
      (CHR ''E'', 14), (CHR ''F'', 15)]"
  by code_simp

lemma digitValue_digitChar: "digitValue (digitChar d) = Some (d mod 10)"
proof -
  have "d mod 10 \<in> {0, 1, 2, 3, 4, 5, 6, 7, 8, 9}"
    by (simp; presburger)
  then show ?thesis
    unfolding digitChar_def digitValue_def digit_table by auto
qed

lemma digitsValue_snoc:
  "digitsValue R (Z @ [c]) =
     digitsValue R Z * R + (case digitValue c of None \<Rightarrow> 0 | Some v \<Rightarrow> v)"
  by (simp add: digitsValue_def)

lemma digitsValue_single:
  "digitsValue R [c] = (case digitValue c of None \<Rightarrow> 0 | Some v \<Rightarrow> v)"
  by (simp add: digitsValue_def)

lemma digitsValue_showDigits: "0 \<le> n \<Longrightarrow> digitsValue 10 (showDigits n) = n"
proof (induction n rule: showDigits.induct)
  case (1 n)
  show ?case
  proof (cases "n < 10")
    case True
    with 1(2) show ?thesis
      by (simp add: showDigits.simps [of n] digitsValue_single digitValue_digitChar)
  next
    case False
    with 1 have "digitsValue 10 (showDigits (n div 10)) = n div 10"
      by simp
    with False show ?thesis
      by (simp add: showDigits.simps [of n] digitsValue_snoc digitValue_digitChar)
  qed
qed

lemma isRadixDigit_digitChar: "isRadixDigit 10 (digitChar d)"
  by (simp add: isRadixDigit_def digitValue_digitChar)

lemma showDigits_digits: "c \<in> set (showDigits n) \<Longrightarrow> isRadixDigit 10 c"
proof (induction n rule: showDigits.induct)
  case (1 n)
  then show ?case
    by (cases "n < 10") (auto simp: showDigits.simps [of n] isRadixDigit_digitChar)
qed

lemma showDigits_nonempty: "showDigits n \<noteq> []"
  by (simp add: showDigits.simps [of n])

lemma decimal_digit:
  "isRadixDigit 10 c \<Longrightarrow> c \<in> set ''0123456789''"
  unfolding isRadixDigit_def digitValue_def digit_table
  by (auto split: option.splits if_splits)


lemma decimal_digit_plain:
  "isRadixDigit 10 c \<Longrightarrow>
   \<not> isWhiteSpace c \<and> c \<noteq> CHR ''-'' \<and> c \<noteq> CHR ''+'' \<and> c \<noteq> CHR ''x'' \<and> c \<noteq> CHR ''X''"
  using decimal_digit [of c] by (auto simp: isWhiteSpace_def)

lemma takeWhile_digits:
  "\<forall>c \<in> set D. isRadixDigit 10 c \<Longrightarrow> endsNumber rest \<Longrightarrow>
   takeWhile (isRadixDigit 10) (D @ rest) = D"
  by (cases rest) (simp_all add: endsNumber_def takeWhile_append2)

lemma digits_no_prefix:
  assumes D: "\<forall>c \<in> set D. isRadixDigit 10 c" "D \<noteq> []" and r: "endsNumber rest"
  shows "\<not> startsWith (D @ rest) ''0x'' \<and> \<not> startsWith (D @ rest) ''0X'' \<and>
         \<not> startsWith (D @ rest) ''-'' \<and> \<not> startsWith (D @ rest) ''+'' \<and>
         dropWhile isWhiteSpace (D @ rest) = D @ rest"
proof -
  from D obtain d ds where d: "D = d # ds" by (cases D) auto
  with D have p: "isRadixDigit 10 d" by simp
  show ?thesis
  proof (cases ds)
    case Nil
    with d p r show ?thesis
      by (cases rest) (auto simp: startsWith_def endsNumber_def dest: decimal_digit_plain)
  next
    case (Cons d' ds')
    with d D have "isRadixDigit 10 d'" by simp
    with Cons d p show ?thesis
      by (auto simp: startsWith_def dest: decimal_digit_plain)
  qed
qed

lemma parseInt_digits:
  assumes D: "\<forall>c \<in> set D. isRadixDigit 10 c" "D \<noteq> []" and r: "endsNumber rest"
    and w: "\<forall>c \<in> set ws. isWhiteSpace c"
  shows "parseInt (Some (ws @ D @ rest)) = roundDouble (digitsValue 10 D)"
    and "parseInt (Some (ws @ CHR ''-'' # D @ rest)) = roundDouble (- digitsValue 10 D)"
proof -
  note n = digits_no_prefix [OF D r] takeWhile_digits [OF D(1) r]
  from w have a: "dropWhile isWhiteSpace (ws @ D @ rest) = D @ rest"
    using n by (simp add: dropWhile_append2)
  from w have b: "dropWhile isWhiteSpace (ws @ CHR ''-'' # D @ rest) = CHR ''-'' # D @ rest"
    by (simp add: dropWhile_append2 isWhiteSpace_def)
  show "parseInt (Some (ws @ D @ rest)) = roundDouble (digitsValue 10 D)"
    using n D(2) by (simp add: parseInt_def a Let_def)
  have s: "startsWith (CHR ''-'' # D @ rest) ''-''"
    by (simp add: startsWith_def)
  show "parseInt (Some (ws @ CHR ''-'' # D @ rest)) = roundDouble (- digitsValue 10 D)"
    using n D(2) by (simp add: parseInt_def b s Let_def)
qed

lemma parseInt_showInt:
  assumes w: "\<forall>c \<in> set ws. isWhiteSpace c" and r: "endsNumber rest"
  shows "parseInt (Some (ws @ showInt m @ rest)) = roundDouble m"
proof (cases "m < 0")
  case True
  then have "digitsValue 10 (showDigits (- m)) = - m"
    by (simp add: digitsValue_showDigits)
  with True parseInt_digits(2) [OF _ showDigits_nonempty r w, of "- m"] show ?thesis
    by (simp add: showInt_def showDigits_digits)
next
  case False
  then have "digitsValue 10 (showDigits m) = m"
    by (simp add: digitsValue_showDigits)
  with False parseInt_digits(1) [OF _ showDigits_nonempty r w, of m] show ?thesis
    by (simp add: showInt_def showDigits_digits)
qed

lemma parseInt_blank: "\<forall>c \<in> set ws. isWhiteSpace c \<Longrightarrow> parseInt (Some ws) = NaN"
proof -
  assume "\<forall>c \<in> set ws. isWhiteSpace c"
  then have d: "dropWhile isWhiteSpace ws = []"
    by simp
  show ?thesis
    unfolding parseInt_def option.case Let_def d by (simp add: startsWith_def)
qed

lemma parseInt_undefined: "parseInt None = NaN"
  by code_simp


lemma parseIntOr1_eq:
  "parseIntOr1 cell =
     (if parseInt cell = NaN \<or> parseInt cell = Fin 0 then Fin 1 else parseInt cell)"
  by (simp add: parseIntOr1_def)

lemma parseIntOr1_truthy: "parseIntOr1 cell \<noteq> NaN \<and> parseIntOr1 cell \<noteq> Fin 0"
  by (simp add: parseIntOr1_def)

lemma requestCount_mapRow:
  "log_entry.requestCount (mapRow pf data) = parseIntOr1 (data COL_FWD_PACKETS)"
  by (simp add: mapRow_def)

text \<open>
  C9, as amended. The request count of an accepted row is the number that \<open>parseInt\<close>
  reads from the forward-packet cell, with 1 in its place when that number is \<open>NaN\<close> or
  0; so it is never \<open>NaN\<close> and never 0. For a cell that holds the decimal text of an
  integer \<open>m\<close>, after any white space and before anything that is no digit and no \<open>x\<close>,
  the number read is the double nearest to \<open>m\<close>, which is \<open>m\<close> itself up to \<open>2^53\<close> in
  magnitude, negative values included; a missing or blank cell reads as \<open>NaN\<close>.
\<close>

theorem requestCount_is_parseInt_or_1:
  "(normalizeLogEntry pf data n = Inr e \<longrightarrow>
      log_entry.requestCount e =
        (if parseInt (data COL_FWD_PACKETS) = NaN \<or> parseInt (data COL_FWD_PACKETS) = Fin 0
         then Fin 1 else parseInt (data COL_FWD_PACKETS)) \<and>
      log_entry.requestCount e \<noteq> NaN \<and> log_entry.requestCount e \<noteq> Fin 0) \<and>
   map log_entry.requestCount (fst (parseCSVLogs pf file rows)) =
     map (\<lambda>r. if parseInt (r COL_FWD_PACKETS) = NaN \<or> parseInt (r COL_FWD_PACKETS) = Fin 0
              then Fin 1 else parseInt (r COL_FWD_PACKETS))
       (filter (\<lambda>r. \<not> rejectedRow r) rows) \<and>
   ((\<forall>c \<in> set ws. isWhiteSpace c) \<and> endsNumber rest \<longrightarrow>
      parseInt (Some (ws @ showInt m @ rest)) = roundDouble m) \<and>
   (\<bar>m\<bar> \<le> 2 ^ 53 \<longrightarrow> roundDouble m = Fin m) \<and>
   (normalizeLogEntry pf data n = Inr e \<and> data COL_FWD_PACKETS = Some (ws @ showInt m @ rest) \<and>
    (\<forall>c \<in> set ws. isWhiteSpace c) \<and> endsNumber rest \<and> \<bar>m\<bar> \<le> 2 ^ 53 \<longrightarrow>
      log_entry.requestCount e = Fin (if m = 0 then 1 else m)) \<and>
   parseInt None = NaN \<and>
   ((\<forall>c \<in> set ws. isWhiteSpace c) \<longrightarrow> parseInt (Some ws) = NaN)"
proof (intro conjI impI)
  assume "normalizeLogEntry pf data n = Inr e"
  then have e: "e = mapRow pf data"
    by (simp add: normalizeLogEntry_eq split: if_splits)
  show "log_entry.requestCount e =
        (if parseInt (data COL_FWD_PACKETS) = NaN \<or> parseInt (data COL_FWD_PACKETS) = Fin 0
         then Fin 1 else parseInt (data COL_FWD_PACKETS))"
    by (simp only: e requestCount_mapRow parseIntOr1_eq)
  show "log_entry.requestCount e \<noteq> NaN" "log_entry.requestCount e \<noteq> Fin 0"
    by (simp_all add: e requestCount_mapRow parseIntOr1_truthy)
next
  show "map log_entry.requestCount (fst (parseCSVLogs pf file rows)) =
     map (\<lambda>r. if parseInt (r COL_FWD_PACKETS) = NaN \<or> parseInt (r COL_FWD_PACKETS) = Fin 0
              then Fin 1 else parseInt (r COL_FWD_PACKETS))
       (filter (\<lambda>r. \<not> rejectedRow r) rows)"
    by (simp add: fst_parseCSVLogs acceptedRecords_def requestCount_mapRow parseIntOr1_eq comp_def)
next
  assume "(\<forall>c \<in> set ws. isWhiteSpace c) \<and> endsNumber rest"
  then show "parseInt (Some (ws @ showInt m @ rest)) = roundDouble m"
    by (simp add: parseInt_showInt)
next
  assume "\<bar>m\<bar> \<le> 2 ^ 53"
  then show "roundDouble m = Fin m"
    by (rule roundDouble_exact)
next
  assume a: "normalizeLogEntry pf data n = Inr e \<and>
    data COL_FWD_PACKETS = Some (ws @ showInt m @ rest) \<and>
    (\<forall>c \<in> set ws. isWhiteSpace c) \<and> endsNumber rest \<and> \<bar>m\<bar> \<le> 2 ^ 53"
  then have e: "e = mapRow pf data"
    by (simp add: normalizeLogEntry_eq split: if_splits)
  from a have "parseInt (data COL_FWD_PACKETS) = Fin m"
    by (simp add: parseInt_showInt roundDouble_exact)
  then show "log_entry.requestCount e = Fin (if m = 0 then 1 else m)"
    by (simp add: e requestCount_mapRow parseIntOr1_eq)
next
  show "parseInt None = NaN"
    by (rule parseInt_undefined)
next
  assume "\<forall>c \<in> set ws. isWhiteSpace c"
  then show "parseInt (Some ws) = NaN"
    by (rule parseInt_blank)
qed


theorem requestCount_is_parseInt_or_1_witness:
  "map log_entry.requestCount (fst (parseCSVLogs sampleParseFloat ''flows.csv'' sampleRows)) =
     [Fin 5, Fin (- 10), Fin 1] \<and>
   normalizeLogEntry sampleParseFloat paddedCountRow 1 =
     Inr (mapRow sampleParseFloat paddedCountRow) \<and>
   paddedCountRow COL_FWD_PACKETS = Some (''  '' @ showInt (- 10) @ '' pkts'') \<and>
   list_all isWhiteSpace ''  '' \<and> endsNumber '' pkts'' \<and> \<bar>- 10 :: int\<bar> \<le> 2 ^ 53 \<and>
   log_entry.requestCount (mapRow sampleParseFloat paddedCountRow) = Fin (- 10) \<and>
   parseInt (Some ''9007199254740993'') = Fin 9007199254740992 \<and>
   parseInt (Some (replicate 309 CHR ''9'')) = PosInf \<and>
   parseInt (Some [CHR 0xA0, CHR ''5'']) = Fin 5 \<and>
   parseInt (Some ''0x1F'') = Fin 31 \<and> parseInt (Some ''12abc'') = Fin 12 \<and>
   parseInt (Some ''abc'') = NaN"
proof -
  have a: "map log_entry.requestCount (fst (parseCSVLogs sampleParseFloat ''flows.csv'' sampleRows)) =
     [Fin 5, Fin (- 10), Fin 1]"
    by code_simp
  have n: "normalizeLogEntry sampleParseFloat paddedCountRow 1 =
     Inr (mapRow sampleParseFloat paddedCountRow)"
    by code_simp
  have c: "paddedCountRow COL_FWD_PACKETS = Some (''  '' @ showInt (- 10) @ '' pkts'')"
    by code_simp
  have w: "\<forall>c \<in> set ''  ''. isWhiteSpace c"
    by code_simp
  have r: "endsNumber '' pkts''"
    by code_simp
  have b: "\<bar>- 10 :: int\<bar> \<le> 2 ^ 53"
    by simp
  have p: "parseInt (Some ''9007199254740993'') = Fin 9007199254740992"
    by code_simp
  have i: "parseInt (Some (replicate 309 CHR ''9'')) = PosInf"
    by code_simp
  have s: "parseInt (Some [CHR 0xA0, CHR ''5'']) = Fin 5"
    by code_simp
  have x: "parseInt (Some ''0x1F'') = Fin 31 \<and> parseInt (Some ''12abc'') = Fin 12 \<and>
     parseInt (Some ''abc'') = NaN"
    by code_simp
  from requestCount_is_parseInt_or_1
    [of sampleParseFloat paddedCountRow 1 "mapRow sampleParseFloat paddedCountRow" _ _
        "''  ''" "'' pkts''" "- 10"] n c w r b
  have "log_entry.requestCount (mapRow sampleParseFloat paddedCountRow) = Fin (- 10)"
    by simp
  moreover from w have "list_all isWhiteSpace ''  ''"
    by (simp add: list_all_iff)
  ultimately show ?thesis
    using a n c r b p i s x by blast
qed

text \<open>
  C9 as stated fails: a row whose forward-packet cell is \<open>-10\<close> is accepted with the request
  count \<open>-10\<close>, which is not positive; and a cell \<open>0\<close>, which parses, gives the default 1.
\<close>

theorem requestCount_not_positive_counterexample:
  "map_sum id log_entry.requestCount
     (normalizeLogEntry sampleParseFloat
        (sampleRow ''2024-01-15T10:30:00Z'' ''192.168.1.100'' ''10.0.0.1'' ''-10'') 1) =
     Inr (Fin (- 10)) \<and>
   parseInt (Some ''0'') = Fin 0 \<and>
   map_sum id log_entry.requestCount
     (normalizeLogEntry sampleParseFloat
        (sampleRow ''2024-01-15T10:30:00Z'' ''192.168.1.100'' ''10.0.0.1'' ''0'') 1) =
     Inr (Fin 1)"
  by code_simp

section \<open>Labels\<close>

lemma not_known_sentinel: "\<not> isKnownDDoSAttack ''N/A''"
  by code_simp

lemma not_known_empty: "\<not> isKnownDDoSAttack []"
  by (simp add: isKnownDDoSAttack_def)

lemma labels_addToGroup:
  "window_group.labels (addToGroup e g) =
     (if recordedLabel e then setAdd (window_group.labels g) (label e) else window_group.labels g)"
  by (simp add: addToGroup_def Let_def recordedLabel_def)

lemma hasKnown_addToGroup:
  "window_group.hasKnownDDoSAttack (addToGroup e g) =
     (window_group.hasKnownDDoSAttack g \<or> isKnownDDoSAttack (label e))"
  using not_known_sentinel not_known_empty
  by (auto simp: addToGroup_def Let_def)

lemma set_setAdd: "set (setAdd s x) = insert x (set s)"
  by (auto simp: setAdd_def)

lemma distinct_setAdd: "distinct s \<Longrightarrow> distinct (setAdd s x)"
  by (simp add: setAdd_def)

lemma foldl_addToGroup_labels:
  "distinct (window_group.labels g0) \<Longrightarrow>
   distinct (window_group.labels (foldl (\<lambda>g e. addToGroup e g) g0 es)) \<and>
   set (window_group.labels (foldl (\<lambda>g e. addToGroup e g) g0 es)) =
     set (window_group.labels g0) \<union> label ` {e \<in> set es. recordedLabel e}"
proof (induction es arbitrary: g0)
  case Nil
  then show ?case by simp
next
  case (Cons e es)
  have d: "distinct (window_group.labels (addToGroup e g0))"
    using Cons.prems by (simp add: labels_addToGroup distinct_setAdd)
  show ?case
    using Cons.IH [OF d] by (auto simp: labels_addToGroup set_setAdd)
qed

lemma foldl_addToGroup_hasKnown:
  "window_group.hasKnownDDoSAttack (foldl (\<lambda>g e. addToGroup e g) g0 es) =
     (window_group.hasKnownDDoSAttack g0 \<or> (\<exists>e \<in> set es. isKnownDDoSAttack (label e)))"
  by (induction es arbitrary: g0) (auto simp: hasKnown_addToGroup)

lemma builtFrom_labels:
  "builtFrom g es \<Longrightarrow>
   distinct (window_group.labels g) \<and>
   set (window_group.labels g) = label ` {e \<in> set es. recordedLabel e}"
  using foldl_addToGroup_labels [of "newGroup ip tk" es for ip tk]
  by (auto simp: builtFrom_def newGroup_def)

lemma builtFrom_hasKnown:
  "builtFrom g es \<Longrightarrow>
   window_group.hasKnownDDoSAttack g = (\<exists>e \<in> set es. isKnownDDoSAttack (label e))"
  using foldl_addToGroup_hasKnown [of "newGroup ip tk" es for ip tk]
  by (auto simp: builtFrom_def newGroup_def)

lemma group_builtFrom_entries:
  "(k, g) \<in> set (groupByIPAndTime d logs w) \<Longrightarrow>
   builtFrom g (window_group.entries g) \<and> window_group.entries g \<noteq> [] \<and>
   set (window_group.entries g) \<subseteq> set logs"
proof -
  assume "(k, g) \<in> set (groupByIPAndTime d logs w)"
  from group_contents [OF this]
  have b: "builtFrom g (filter (\<lambda>e. keyOf d w e = k) logs)"
    and n: "filter (\<lambda>e. keyOf d w e = k) logs \<noteq> []"
    by simp_all
  from builtFrom_entries [OF b] b n show ?thesis by auto
qed

lemma groupHasDrDoSDNS_foldl_labels:
  "groupHasDrDoSDNS (foldl checkLabel sc ls) =
     (groupHasDrDoSDNS sc \<or> (\<exists>l \<in> set ls. includesStr l ''DrDoS_DNS''))"
  by (induction ls arbitrary: sc) (auto simp: checkLabel_def Let_def)

lemma groupHasDrDoSDNS_foldl_rules:
  "groupHasDrDoSDNS (foldl (applyRule g f) sc rs) = groupHasDrDoSDNS sc"
  by (induction rs arbitrary: sc) (auto simp: applyRule_def)

lemma groupHasDrDoSDNS_scoreGroup:
  "groupHasDrDoSDNS (scoreGroup st g f) =
     (\<exists>l \<in> set (window_group.labels g). includesStr l ''DrDoS_DNS'')"
  by (auto simp: scoreGroup_def Let_def groupHasDrDoSDNS_foldl_labels groupHasDrDoSDNS_foldl_rules)

text \<open>
  C4, as amended. In every window of the grouper the known-attack flag is set exactly
  when one of its records has a label that equals a configured known-attack label up to
  case; the label set of the window holds each recorded label once; and the labels add to
  the risk score 5 for each label of that set that contains the text \<open>DrDoS_DNS\<close>, and
  nothing for any other label. The flag of a flagged entry is the window's flag or the
  presence of such a \<open>DrDoS_DNS\<close> label.
\<close>

theorem known_label_sets_flag_only_DrDoS_DNS_scores:
  "(k, g) \<in> set (groupByIPAndTime d logs w) \<longrightarrow>
     (window_group.hasKnownDDoSAttack g \<longleftrightarrow>
        (\<exists>e \<in> set (window_group.entries g). isKnownDDoSAttack (label e))) \<and>
     distinct (window_group.labels g) \<and>
     set (window_group.labels g) = label ` {e \<in> set (window_group.entries g). recordedLabel e} \<and>
     scoring.riskScore (foldl checkLabel sc (window_group.labels g)) =
       scoring.riskScore sc +
       5 * int (length (filter (\<lambda>l. includesStr l ''DrDoS_DNS'') (window_group.labels g))) \<and>
     windowRisk g =
       sum_list (map risk (filter (\<lambda>r. check r g (windowFrequency g)) indicatorRules)) +
       5 * int (length (filter (\<lambda>l. includesStr l ''DrDoS_DNS'') (window_group.labels g))) \<and>
     flagged_entry.hasKnownDDoSAttack (flaggedWindow clock (i, g)) =
       (window_group.hasKnownDDoSAttack g \<or>
        (\<exists>l \<in> set (window_group.labels g). includesStr l ''DrDoS_DNS''))"
proof (intro impI conjI)
  assume "(k, g) \<in> set (groupByIPAndTime d logs w)"
  then have b: "builtFrom g (window_group.entries g)"
    using group_builtFrom_entries by blast
  show "window_group.hasKnownDDoSAttack g \<longleftrightarrow>
        (\<exists>e \<in> set (window_group.entries g). isKnownDDoSAttack (label e))"
    by (rule builtFrom_hasKnown [OF b])
  show "distinct (window_group.labels g)"
    using builtFrom_labels [OF b] by simp
  show "set (window_group.labels g) = label ` {e \<in> set (window_group.entries g). recordedLabel e}"
    using builtFrom_labels [OF b] by simp
next
  show "scoring.riskScore (foldl checkLabel sc (window_group.labels g)) =
       scoring.riskScore sc +
       5 * int (length (filter (\<lambda>l. includesStr l ''DrDoS_DNS'') (window_group.labels g)))"
    by (rule riskScore_foldl_labels)
  show "windowRisk g =
       sum_list (map risk (filter (\<lambda>r. check r g (windowFrequency g)) indicatorRules)) +
       5 * int (length (filter (\<lambda>l. includesStr l ''DrDoS_DNS'') (window_group.labels g)))"
    unfolding windowRisk_def windowScore_def by (rule riskScore_scoreGroup)
  show "flagged_entry.hasKnownDDoSAttack (flaggedWindow clock (i, g)) =
       (window_group.hasKnownDDoSAttack g \<or>
        (\<exists>l \<in> set (window_group.labels g). includesStr l ''DrDoS_DNS''))"
    by (simp add: flaggedWindow_def makeFlaggedEntry_def windowScore_def
          groupHasDrDoSDNS_scoreGroup)
qed

theorem known_label_sets_flag_only_DrDoS_DNS_scores_witness:
  "map window_group.labels (objectValues (groupByIPAndTime sampleDate dnsLogs 5)) =
     [[''DrDoS_DNS'', ''Syn'']] \<and>
   map window_group.hasKnownDDoSAttack (objectValues (groupByIPAndTime sampleDate dnsLogs 5)) =
     [True] \<and>
   map windowRisk (objectValues (groupByIPAndTime sampleDate dnsLogs 5)) = [5] \<and>
   map (\<lambda>g. sum_list (map risk (filter (\<lambda>r. check r g (windowFrequency g)) indicatorRules)))
     (objectValues (groupByIPAndTime sampleDate dnsLogs 5)) = [0]"
proof -
  have l: "map window_group.labels (objectValues (groupByIPAndTime sampleDate dnsLogs 5)) =
     [[''DrDoS_DNS'', ''Syn'']]"
    by code_simp
  have h: "map window_group.hasKnownDDoSAttack (objectValues (groupByIPAndTime sampleDate dnsLogs 5)) =
     [True]"
    by code_simp
  have r: "map windowRisk (objectValues (groupByIPAndTime sampleDate dnsLogs 5)) = [5]"
    by code_simp
  from l obtain kg where g: "groupByIPAndTime sampleDate dnsLogs 5 = [kg]"
    by (auto simp: objectValues_def)
  have c: "length (filter (\<lambda>l. includesStr l ''DrDoS_DNS'') [''DrDoS_DNS'', ''Syn'']) = 1"
    by code_simp
  from g have "(fst kg, snd kg) \<in> set (groupByIPAndTime sampleDate dnsLogs 5)"
    by simp
  with known_label_sets_flag_only_DrDoS_DNS_scores [of "fst kg" "snd kg" sampleDate dnsLogs 5]
  have "windowRisk (snd kg) =
       sum_list (map risk (filter (\<lambda>r. check r (snd kg) (windowFrequency (snd kg))) indicatorRules)) +
       5 * int (length (filter (\<lambda>l. includesStr l ''DrDoS_DNS'') (window_group.labels (snd kg))))"
    by blast
  with l h r g c show ?thesis
    by (simp add: objectValues_def)
qed

text \<open>
  C4 as stated fails: the label \<open>Syn\<close> is a configured known-attack label and sets the
  flag of its window, but adds no weight: the window scores 0 and is not flagged.
\<close>

theorem known_label_without_weight_counterexample:
  "isKnownDDoSAttack ''Syn'' \<and>
   map window_group.labels (objectValues (groupByIPAndTime sampleDate synLogs 5)) = [[''Syn'']] \<and>
   map window_group.hasKnownDDoSAttack (objectValues (groupByIPAndTime sampleDate synLogs 5)) =
     [True] \<and>
   map windowRisk (objectValues (groupByIPAndTime sampleDate synLogs 5)) = [0] \<and>
   map flagged_entry.riskScore (flaggedEntries (analyzeLogsForDDoS sampleDate sampleClock synLogs)) = []"
  by code_simp

section \<open>Windows of CSV records\<close>

lemma sentinelFields_mapRow: "sentinelFields (mapRow pf data)"
  by (simp add: sentinelFields_def mapRow_def)

lemma intCounts_sentinelFields:
  "intCounts es = Some logs \<Longrightarrow> \<forall>e \<in> set es. sentinelFields e \<Longrightarrow>
   \<forall>e \<in> set logs. sentinelFields e"
proof (induction es arbitrary: logs)
  case Nil
  then show ?case by (simp add: intCounts_def)
next
  case (Cons e es)
  from Cons.prems(1) obtain e' logs' where
    e: "intCount e = Some e'" "intCounts es = Some logs'" "logs = e' # logs'"
    by (auto simp: intCounts_def split: option.splits)
  from e(1) Cons.prems(2) have "sentinelFields e'"
    by (auto simp: intCount_def sentinelFields_def split: jsnum.splits)
  with Cons.IH [OF e(2)] Cons.prems(2) e(3) show ?case
    by simp
qed

lemma not_suspicious_sentinel: "\<not> isSuspiciousUserAgent ''N/A''"
  by code_simp

lemma addToGroup_sentinel:
  "sentinelFields e \<Longrightarrow>
   window_group.uniquePaths (addToGroup e g) = setAdd (window_group.uniquePaths g) ''N/A'' \<and>
   window_group.uniqueUserAgents (addToGroup e g) = setAdd (window_group.uniqueUserAgents g) ''N/A'' \<and>
   window_group.responseCodes (addToGroup e g) = window_group.responseCodes g \<and>
   window_group.methods (addToGroup e g) = window_group.methods g"
  by (simp add: sentinelFields_def addToGroup_def Let_def)

lemma sentinelOnly_addToGroup:
  "sentinelFields e \<Longrightarrow> sentinelOnly g \<Longrightarrow> sentinelOnly (addToGroup e g)"
  by (simp add: sentinelOnly_def addToGroup_sentinel setAdd_def)

lemma sentinelOnly_first:
  "sentinelFields e \<Longrightarrow> sentinelOnly (addToGroup e (newGroup ip tk))"
  by (simp add: sentinelOnly_def addToGroup_sentinel setAdd_def newGroup_def)

lemma sentinelOnly_foldl:
  "sentinelOnly g0 \<Longrightarrow> \<forall>e \<in> set es. sentinelFields e \<Longrightarrow>
   sentinelOnly (foldl (\<lambda>g e. addToGroup e g) g0 es)"
  by (induction es arbitrary: g0) (simp_all add: sentinelOnly_addToGroup)

lemma builtFrom_sentinelOnly:
  "builtFrom g es \<Longrightarrow> es \<noteq> [] \<Longrightarrow> \<forall>e \<in> set es. sentinelFields e \<Longrightarrow> sentinelOnly g"
proof -
  assume b: "builtFrom g es" and n: "es \<noteq> []" and s: "\<forall>e \<in> set es. sentinelFields e"
  from n obtain e es' where es: "es = e # es'" by (cases es) auto
  from b obtain ip tk where "g = foldl (\<lambda>g e. addToGroup e g) (newGroup ip tk) es"
    by (auto simp: builtFrom_def)
  with es have "g = foldl (\<lambda>g e. addToGroup e g) (addToGroup e (newGroup ip tk)) es'"
    by simp
  moreover have "sentinelOnly (addToGroup e (newGroup ip tk))"
    using s es by (simp add: sentinelOnly_first)
  ultimately show ?thesis
    using s es by (simp add: sentinelOnly_foldl)
qed

lemma rules_silent_on_sentinelOnly:
  "sentinelOnly g \<Longrightarrow>
   \<not> check (indicatorRules ! 2) g f \<and> \<not> check (indicatorRules ! 4) g f \<and>
   \<not> check (indicatorRules ! 5) g f \<and> \<not> check (indicatorRules ! 6) g f"
  using not_suspicious_sentinel
  by (simp add: sentinelOnly_def indicatorRules_def)

lemma message_rules:
  "message (indicatorRules ! 2) g f =
     SuspiciousUserAgents (filter isSuspiciousUserAgent (window_group.uniqueUserAgents g)) \<and>
   (\<exists>cs. message (indicatorRules ! 4) g f = SuspiciousResponseCodes cs) \<and>
   message (indicatorRules ! 5) g f = HighPathDiversity (length (window_group.uniquePaths g)) \<and>
   (\<exists>ms. message (indicatorRules ! 6) g f = SuspiciousMethods ms)"
  by (simp add: indicatorRules_def)

text \<open>
  C10. Every record that either normalizer produces carries \<open>N/A\<close> as user agent,
  response code, method and path. In every window grouped from such records the set of
  paths has one member, and the rules at positions 2, 4, 5 and 6 of the rule list, which
  are the suspicious-user-agent, suspicious-response-code, path-diversity and
  suspicious-method rules, do not fire, whatever the frequency. The records of
  \<open>parseCSVLogs\<close> with their counts read as integers are such records.
\<close>

theorem csv_records_never_fire_application_rules:
  "sentinelFields (mapRow pf data) \<and>
   (normalizeLogEntry pf data n = Inr e \<longrightarrow> sentinelFields e) \<and>
   (\<forall>e \<in> set (fst (parseCSVLogs pf file rows)). sentinelFields e) \<and>
   ((\<forall>e \<in> set logs. sentinelFields e) \<and> (k, g) \<in> set (groupByIPAndTime d logs w) \<longrightarrow>
      length (window_group.uniquePaths g) = 1 \<and>
      \<not> check (indicatorRules ! 2) g f \<and> \<not> check (indicatorRules ! 4) g f \<and>
      \<not> check (indicatorRules ! 5) g f \<and> \<not> check (indicatorRules ! 6) g f) \<and>
   message (indicatorRules ! 2) g f =
     SuspiciousUserAgents (filter isSuspiciousUserAgent (window_group.uniqueUserAgents g)) \<and>
   (\<exists>cs. message (indicatorRules ! 4) g f = SuspiciousResponseCodes cs) \<and>
   message (indicatorRules ! 5) g f = HighPathDiversity (length (window_group.uniquePaths g)) \<and>
   (\<exists>ms. message (indicatorRules ! 6) g f = SuspiciousMethods ms) \<and>
   (intCounts (fst (parseCSVLogs pf file rows)) = Some parsed \<longrightarrow>
      (\<forall>e \<in> set parsed. sentinelFields e))"
proof (intro conjI impI ballI)
  show "sentinelFields (mapRow pf data)"
    by (rule sentinelFields_mapRow)
  show "sentinelFields e" if "normalizeLogEntry pf data n = Inr e"
    using that by (auto simp: normalizeLogEntry_eq sentinelFields_mapRow split: if_splits)
  show "sentinelFields x" if "x \<in> set (fst (parseCSVLogs pf file rows))" for x
    using that by (auto simp: fst_parseCSVLogs acceptedRecords_def sentinelFields_mapRow)
next
  assume a: "(\<forall>e \<in> set logs. sentinelFields e) \<and> (k, g) \<in> set (groupByIPAndTime d logs w)"
  then have "builtFrom g (window_group.entries g)" "window_group.entries g \<noteq> []"
    "set (window_group.entries g) \<subseteq> set logs"
    using group_builtFrom_entries by blast+
  with a have s: "sentinelOnly g"
    by (intro builtFrom_sentinelOnly [of g "window_group.entries g"]) auto
  then show "length (window_group.uniquePaths g) = 1"
    by (simp add: sentinelOnly_def)
  from rules_silent_on_sentinelOnly [OF s, of f]
  show "\<not> check (indicatorRules ! 2) g f" "\<not> check (indicatorRules ! 4) g f"
    "\<not> check (indicatorRules ! 5) g f" "\<not> check (indicatorRules ! 6) g f"
    by simp_all
next
  from message_rules [of g f]
  show "message (indicatorRules ! 2) g f =
     SuspiciousUserAgents (filter isSuspiciousUserAgent (window_group.uniqueUserAgents g))"
    "\<exists>cs. message (indicatorRules ! 4) g f = SuspiciousResponseCodes cs"
    "message (indicatorRules ! 5) g f = HighPathDiversity (length (window_group.uniquePaths g))"
    "\<exists>ms. message (indicatorRules ! 6) g f = SuspiciousMethods ms"
    by simp_all
next
  fix x
  assume "intCounts (fst (parseCSVLogs pf file rows)) = Some parsed" "x \<in> set parsed"
  moreover have "\<forall>e \<in> set (fst (parseCSVLogs pf file rows)). sentinelFields e"
    by (auto simp: fst_parseCSVLogs acceptedRecords_def sentinelFields_mapRow)
  ultimately show "sentinelFields x"
    using intCounts_sentinelFields by blast
qed

theorem csv_records_never_fire_application_rules_witness:
  "intCounts (fst (parseCSVLogs sampleParseFloat ''flows.csv'' sampleRows)) = Some sampleParsed \<and>
   map fst (groupByIPAndTime sampleDate sampleParsed 5) = [''192.168.1.100_5684382''] \<and>
   map window_group.uniquePaths (objectValues (groupByIPAndTime sampleDate sampleParsed 5)) =
     [[''N/A'']] \<and>
   \<not> check (indicatorRules ! 2) (snd (hd (groupByIPAndTime sampleDate sampleParsed 5))) (Fin 0) \<and>
   \<not> check (indicatorRules ! 5) (snd (hd (groupByIPAndTime sampleDate sampleParsed 5))) (Fin 0)"
proof -
  let ?G = "groupByIPAndTime sampleDate sampleParsed 5"
  have i: "intCounts (fst (parseCSVLogs sampleParseFloat ''flows.csv'' sampleRows)) =
     Some sampleParsed"
    by code_simp
  have k: "map fst ?G = [''192.168.1.100_5684382'']"
    by code_simp
  have p: "map window_group.uniquePaths (objectValues ?G) = [[''N/A'']]"
    by code_simp
  from k have "(fst (hd ?G), snd (hd ?G)) \<in> set ?G"
    by (cases ?G) auto
  moreover have "\<forall>e \<in> set sampleParsed. sentinelFields e"
    using csv_records_never_fire_application_rules
      [of sampleParseFloat _ _ _ "''flows.csv''" sampleRows _ _ _ _ _ _ sampleParsed] i
    by blast
  ultimately have "\<not> check (indicatorRules ! 2) (snd (hd ?G)) (Fin 0) \<and>
      \<not> check (indicatorRules ! 5) (snd (hd ?G)) (Fin 0)"
    using csv_records_never_fire_application_rules
      [of sampleParseFloat _ _ _ "''flows.csv''" sampleRows sampleParsed "fst (hd ?G)" "snd (hd ?G)"
          sampleDate 5 "Fin 0"]
    by blast
  with i k p show ?thesis by blast
qed

end
